theory Spec2Isabelle
  imports Complex_Main
begin

section \<open>Block-parallel kernels of the Triton tutorial notebooks\<close>

text \<open>
  The notebooks pair a host function (allocate the output, choose a block size and a
  launch grid, start the kernel) with one kernel body that every grid cell runs.
  The embedding follows that shape. A tensor is its shape and its row-major elements;
  a device pointer is what a kernel reads through, lane by lane; a block of lanes
  (\<open>tl.arange(0, BLOCK_SIZE)\<close> and everything computed from it) is a function on the lane
  index, with the block size passed beside it as the kernels pass it
  (\<open>tl.constexpr\<close>); a kernel cell takes the output buffer and returns it updated by
  its masked store; a launch runs the cells of the grid one after the other.

  Arithmetic is exact: elements are real numbers, so rounding is absent and the
  statements below are about the algorithms, not about float32 or float16.
  Offsets are unbounded naturals; the 32-bit offset arithmetic of the device is not
  modelled.
\<close>

subsection \<open>Tensors, device pointers, blocks of lanes\<close>

record 'a matrix =
  nrows :: nat
  ncols :: nat
  elems :: "'a list"

text \<open>
  A kernel reads \<open>ptr + offset\<close>. Inside the allocation that is the element at the
  offset; past its end the device returns whatever lies there, which the program does
  not control: the function \<open>junk\<close> stands for those values and is arbitrary in every
  statement below. The same \<open>junk\<close> fills an allocation of \<open>torch.empty\<close> and the masked
  lanes of a load that names no \<open>other\<close>.
\<close>

definition device_ptr :: "(nat \<Rightarrow> 'a) \<Rightarrow> 'a list \<Rightarrow> nat \<Rightarrow> 'a" where
  "device_ptr junk buf off = (if off < length buf then buf ! off else junk off)"

definition torch_empty :: "(nat \<Rightarrow> 'a) \<Rightarrow> nat \<Rightarrow> 'a list" where
  "torch_empty junk n = map junk [0..<n]"

definition torch_zeros :: "nat \<Rightarrow> real list" where
  "torch_zeros n = replicate n 0"

text \<open>\<open>tl.load(ptr + offsets, mask=mask, other=other)\<close>, one value per lane.\<close>

definition tl_load :: "(nat \<Rightarrow> 'a) \<Rightarrow> ('l \<Rightarrow> nat) \<Rightarrow> ('l \<Rightarrow> bool) \<Rightarrow> ('l \<Rightarrow> 'a) \<Rightarrow> 'l \<Rightarrow> 'a" where
  "tl_load ptr offsets msk other l = (if msk l then ptr (offsets l) else other l)"

text \<open>
  \<open>tl.store(ptr + offsets, values, mask=mask)\<close> over the lanes of the block: a lane
  whose mask is true writes its value at its offset, the others write nothing.
  A write past the end of the buffer would leave the buffer as it is
  (\<open>list_update\<close> out of range); the kernels below never issue one.
\<close>

definition tl_store :: "'a list \<Rightarrow> 'l list \<Rightarrow> ('l \<Rightarrow> nat) \<Rightarrow> ('l \<Rightarrow> 'a) \<Rightarrow> ('l \<Rightarrow> bool) \<Rightarrow> 'a list" where
  "tl_store buf lanes offsets vals msk =
     fold (\<lambda>l b. if msk l then b[offsets l := vals l] else b) lanes buf"

text \<open>The offsets a store really writes: those of the lanes whose mask is true.\<close>

definition stored_offsets :: "'l list \<Rightarrow> ('l \<Rightarrow> nat) \<Rightarrow> ('l \<Rightarrow> bool) \<Rightarrow> nat list" where
  "stored_offsets lanes offsets msk = map offsets (filter msk lanes)"

text \<open>\<open>tl.sum(v, axis=0)\<close> over a block of \<open>BLOCK_SIZE\<close> real lanes.\<close>

definition tl_sum :: "nat \<Rightarrow> (nat \<Rightarrow> real) \<Rightarrow> real" where
  "tl_sum BLOCK_SIZE v = (\<Sum>l<BLOCK_SIZE. v l)"

text \<open>\<open>kernel[grid](...)\<close>: every cell of the grid runs the kernel on the output buffer.\<close>

definition launch :: "'p list \<Rightarrow> ('p \<Rightarrow> 'a list \<Rightarrow> 'a list) \<Rightarrow> 'a list \<Rightarrow> 'a list" where
  "launch grid kern output = fold kern grid output"

text \<open>\<open>triton.cdiv(x, y)\<close> is \<open>(x + y - 1) // y\<close>.\<close>

definition cdiv :: "nat \<Rightarrow> nat \<Rightarrow> nat" where
  "cdiv x y = (x + y - 1) div y"

text \<open>
  Modelled from the spec: \<open>triton.next_power_of_2\<close> is library code that the notebooks
  call and do not contain. The spec names its result "the next power of two \<open>\<ge>\<close> C":
  the least power of two that is at least the argument, found here by doubling from 1.
\<close>

function np2_from :: "nat \<Rightarrow> nat \<Rightarrow> nat" where
  "np2_from p n = (if p = 0 \<or> n \<le> p then p else np2_from (2 * p) n)"
  by pat_completeness auto
termination
  by (relation "measure (\<lambda>(p, n). n - p)") auto

declare np2_from.simps [simp del]

definition next_power_of_2 :: "nat \<Rightarrow> nat" where
  "next_power_of_2 n = np2_from 1 n"

subsection \<open>Vector addition (02\_vector\_addition.ipynb)\<close>

definition add_offsets :: "nat \<Rightarrow> nat \<Rightarrow> nat \<Rightarrow> nat" where
  "add_offsets BLOCK_SIZE pid l = (let block_start = pid * BLOCK_SIZE in block_start + l)"

definition add_mask :: "nat \<Rightarrow> nat \<Rightarrow> nat \<Rightarrow> nat \<Rightarrow> bool" where
  "add_mask n_elements BLOCK_SIZE pid l = (add_offsets BLOCK_SIZE pid l < n_elements)"

definition add_kernel ::
  "(nat \<Rightarrow> real) \<Rightarrow> (nat \<Rightarrow> real) \<Rightarrow> (nat \<Rightarrow> real) \<Rightarrow> nat \<Rightarrow> nat \<Rightarrow> nat \<Rightarrow> real list \<Rightarrow> real list" where
  "add_kernel junk x_ptr y_ptr n_elements BLOCK_SIZE pid output =
     (let offsets = add_offsets BLOCK_SIZE pid;
          msk = add_mask n_elements BLOCK_SIZE pid;
          x = tl_load x_ptr offsets msk junk;
          y = tl_load y_ptr offsets msk junk;
          out = (\<lambda>l. x l + y l)
      in tl_store output [0..<BLOCK_SIZE] offsets out msk)"

text \<open>
  The host function \<open>add\<close> with its block size as a parameter; the notebook fixes 1024.
\<close>

definition add_launch :: "(nat \<Rightarrow> real) \<Rightarrow> nat \<Rightarrow> real list \<Rightarrow> real list \<Rightarrow> real list" where
  "add_launch junk BLOCK_SIZE x y =
     (let output = torch_empty junk (length x);
          n_elements = length output;
          grid = [0..<cdiv n_elements BLOCK_SIZE]
      in launch grid
           (add_kernel junk (device_ptr junk x) (device_ptr junk y) n_elements BLOCK_SIZE)
           output)"

definition add :: "(nat \<Rightarrow> real) \<Rightarrow> real list \<Rightarrow> real list \<Rightarrow> real list" where
  "add junk x y = add_launch junk 1024 x y"

subsection \<open>Values of the softmax kernels\<close>

text \<open>
  The softmax kernels load \<open>-float('inf')\<close> into their masked lanes, so their lanes
  range over the reals extended by the two infinities and by the result of an undefined
  operation (\<open>inf - inf\<close>, \<open>0 * inf\<close>, \<open>0 / 0\<close>). The operations are the floating-point
  ones on these values with exact arithmetic on the finite ones; zero carries no sign.
\<close>

datatype fval = Fin real | PInf | NInf | NaN

fun fneg :: "fval \<Rightarrow> fval" where
  "fneg (Fin a) = Fin (- a)"
| "fneg PInf = NInf"
| "fneg NInf = PInf"
| "fneg NaN = NaN"

fun fadd :: "fval \<Rightarrow> fval \<Rightarrow> fval" where
  "fadd (Fin a) (Fin b) = Fin (a + b)"
| "fadd NaN _ = NaN"
| "fadd _ NaN = NaN"
| "fadd PInf NInf = NaN"
| "fadd NInf PInf = NaN"
| "fadd PInf _ = PInf"
| "fadd _ PInf = PInf"
| "fadd NInf _ = NInf"
| "fadd _ NInf = NInf"

definition fsub :: "fval \<Rightarrow> fval \<Rightarrow> fval" where
  "fsub a b = fadd a (fneg b)"

fun fmul :: "fval \<Rightarrow> fval \<Rightarrow> fval" where
  "fmul (Fin a) (Fin b) = Fin (a * b)"
| "fmul NaN _ = NaN"
| "fmul _ NaN = NaN"
| "fmul (Fin a) PInf = (if 0 < a then PInf else if a < 0 then NInf else NaN)"
| "fmul (Fin a) NInf = (if 0 < a then NInf else if a < 0 then PInf else NaN)"
| "fmul PInf (Fin b) = (if 0 < b then PInf else if b < 0 then NInf else NaN)"
| "fmul NInf (Fin b) = (if 0 < b then NInf else if b < 0 then PInf else NaN)"
| "fmul PInf PInf = PInf"
| "fmul NInf NInf = PInf"
| "fmul PInf NInf = NInf"
| "fmul NInf PInf = NInf"

fun fdiv :: "fval \<Rightarrow> fval \<Rightarrow> fval" where
  "fdiv (Fin a) (Fin b) =
     (if b \<noteq> 0 then Fin (a / b) else if 0 < a then PInf else if a < 0 then NInf else NaN)"
| "fdiv NaN _ = NaN"
| "fdiv _ NaN = NaN"
| "fdiv (Fin a) _ = Fin 0"
| "fdiv PInf (Fin b) = (if 0 \<le> b then PInf else NInf)"
| "fdiv NInf (Fin b) = (if 0 \<le> b then NInf else PInf)"
| "fdiv _ _ = NaN"

fun fexp :: "fval \<Rightarrow> fval" where
  "fexp (Fin a) = Fin (exp a)"
| "fexp PInf = PInf"
| "fexp NInf = Fin 0"
| "fexp NaN = NaN"

fun fmax :: "fval \<Rightarrow> fval \<Rightarrow> fval" where
  "fmax (Fin a) (Fin b) = Fin (max a b)"
| "fmax NaN b = b"
| "fmax a NaN = a"
| "fmax PInf _ = PInf"
| "fmax _ PInf = PInf"
| "fmax NInf b = b"
| "fmax a NInf = a"

fun feq :: "fval \<Rightarrow> fval \<Rightarrow> bool" where
  "feq (Fin a) (Fin b) = (a = b)"
| "feq PInf PInf = True"
| "feq NInf NInf = True"
| "feq _ _ = False"

text \<open>\<open>tl.max(v, axis=0)\<close> and \<open>tl.sum(v, axis=0)\<close> over a block of such lanes.\<close>

definition tl_max :: "nat \<Rightarrow> (nat \<Rightarrow> fval) \<Rightarrow> fval" where
  "tl_max BLOCK_SIZE v = fold (\<lambda>l m. fmax m (v l)) [0..<BLOCK_SIZE] NInf"

definition tl_fsum :: "nat \<Rightarrow> (nat \<Rightarrow> fval) \<Rightarrow> fval" where
  "tl_fsum BLOCK_SIZE v = fold (\<lambda>l s. fadd s (v l)) [0..<BLOCK_SIZE] (Fin 0)"

text \<open>The sum of the stored elements of a row, in the same arithmetic.\<close>

definition fsum_list :: "fval list \<Rightarrow> fval" where
  "fsum_list vs = fold (\<lambda>v s. fadd s v) vs (Fin 0)"

definition row_of :: "'a matrix \<Rightarrow> nat \<Rightarrow> 'a list" where
  "row_of M r = take (ncols M) (drop (r * ncols M) (elems M))"

definition well_formed :: "'a matrix \<Rightarrow> bool" where
  "well_formed M = (length (elems M) = nrows M * ncols M)"

text \<open>A matrix of real numbers as a matrix of such values, all of them finite.\<close>

definition finite_matrix :: "real matrix \<Rightarrow> fval matrix" where
  "finite_matrix M = \<lparr>nrows = nrows M, ncols = ncols M, elems = map Fin (elems M)\<rparr>"

subsection \<open>Softmax forward and backward (04\_softmax\_fwd\_bwd.ipynb)\<close>

text \<open>Both kernels address and mask their row in the same way.\<close>

definition row_offset :: "nat \<Rightarrow> nat \<Rightarrow> nat \<Rightarrow> nat" where
  "row_offset x_cols pid l = (let row_start = pid * x_cols in row_start + l)"

definition row_mask :: "nat \<Rightarrow> nat \<Rightarrow> nat \<Rightarrow> bool" where
  "row_mask x_cols pid l = (let row_start = pid * x_cols in row_offset x_cols pid l < row_start + x_cols)"

text \<open>
  The body of the forward kernel up to its store, with the values of its variables:
  the loaded \<open>row\<close>, the maximum that the kernel subtracts from it, \<open>num\<close>, \<open>denom\<close> and
  \<open>output\<close>. The kernel stores the last of them. It rebinds \<open>row\<close> to the row minus
  its maximum; that second value is \<open>row_shifted\<close> here.
\<close>

record fwd_block =
  fwd_row :: "nat \<Rightarrow> fval"
  fwd_row_max :: fval
  fwd_num :: "nat \<Rightarrow> fval"
  fwd_denom :: fval
  fwd_output :: "nat \<Rightarrow> fval"

definition softmax_fwd_block :: "(nat \<Rightarrow> fval) \<Rightarrow> nat \<Rightarrow> nat \<Rightarrow> nat \<Rightarrow> fwd_block" where
  "softmax_fwd_block x_ptr x_cols BLOCK_SIZE pid =
     (let row = tl_load x_ptr (row_offset x_cols pid) (row_mask x_cols pid) (\<lambda>_. NInf);
          row_max = tl_max BLOCK_SIZE row;
          row_shifted = (\<lambda>l. fsub (row l) row_max);
          num = (\<lambda>l. fexp (row_shifted l));
          denom = tl_fsum BLOCK_SIZE num;
          out = (\<lambda>l. fdiv (num l) denom)
      in \<lparr>fwd_row = row, fwd_row_max = row_max, fwd_num = num, fwd_denom = denom,
          fwd_output = out\<rparr>)"

definition softmax_fwd_kernel ::
  "(nat \<Rightarrow> fval) \<Rightarrow> nat \<Rightarrow> nat \<Rightarrow> nat \<Rightarrow> nat \<Rightarrow> fval list \<Rightarrow> fval list" where
  "softmax_fwd_kernel x_ptr x_rows x_cols BLOCK_SIZE pid output =
     tl_store output [0..<BLOCK_SIZE] (row_offset x_cols pid)
       (fwd_output (softmax_fwd_block x_ptr x_cols BLOCK_SIZE pid)) (row_mask x_cols pid)"

definition softmax_fwd :: "(nat \<Rightarrow> fval) \<Rightarrow> fval matrix \<Rightarrow> fval matrix" where
  "softmax_fwd junk x =
     (let output = torch_empty junk (length (elems x));
          x_rows = nrows x;
          x_cols = ncols x;
          BLOCK_SIZE = next_power_of_2 x_cols;
          grid = [0..<x_rows]
      in \<lparr>nrows = x_rows, ncols = x_cols,
          elems = launch grid
            (softmax_fwd_kernel (device_ptr junk (elems x)) x_rows x_cols BLOCK_SIZE) output\<rparr>)"

text \<open>
  The last step of the backward kernel, the gradient across the subtraction of the
  maximum, as a function of the loaded row and of \<open>normed_grad\<close>: it returns the block
  \<open>x_grad + x_grad_2\<close> that the kernel stores.
\<close>

definition max_grad_routing :: "nat \<Rightarrow> (nat \<Rightarrow> fval) \<Rightarrow> (nat \<Rightarrow> fval) \<Rightarrow> nat \<Rightarrow> fval" where
  "max_grad_routing BLOCK_SIZE x_row normed_grad =
     (let x_grad = normed_grad;
          max_grad = (\<lambda>l. fneg (normed_grad l));
          max_grad = tl_fsum BLOCK_SIZE max_grad;
          x_grad_2 = (\<lambda>l. fmul max_grad
                      (if feq (x_row l) (tl_max BLOCK_SIZE x_row) then Fin 1 else Fin 0))
      in (\<lambda>l. fadd (x_grad l) (x_grad_2 l)))"

text \<open>
  The body of the backward kernel up to its store, with the values of its variables
  \<open>x_row\<close> and \<open>normed_grad\<close> and the block \<open>dx\<close> that it stores. The kernel recomputes the
  forward \<open>output\<close> and does not use it.
\<close>

record bwd_block =
  bwd_x_row :: "nat \<Rightarrow> fval"
  bwd_normed_grad :: "nat \<Rightarrow> fval"
  bwd_dx :: "nat \<Rightarrow> fval"

definition softmax_bwd_block ::
  "(nat \<Rightarrow> fval) \<Rightarrow> (nat \<Rightarrow> fval) \<Rightarrow> nat \<Rightarrow> nat \<Rightarrow> nat \<Rightarrow> bwd_block" where
  "softmax_bwd_block x_ptr dy_ptr x_cols BLOCK_SIZE pid =
     (let x_row = tl_load x_ptr (row_offset x_cols pid) (row_mask x_cols pid) (\<lambda>_. NInf);
          dy_row = tl_load dy_ptr (row_offset x_cols pid) (row_mask x_cols pid) (\<lambda>_. Fin 0);
          x_normed = (\<lambda>l. fsub (x_row l) (tl_max BLOCK_SIZE x_row));
          num = (\<lambda>l. fexp (x_normed l));
          denom = tl_fsum BLOCK_SIZE num;
          inverted = fdiv (Fin 1) denom;
          output = (\<lambda>l. fmul (num l) inverted);
          num_grad = (\<lambda>l. fmul (dy_row l) inverted);
          inverted_grad = (\<lambda>l. fmul (dy_row l) (num l));
          inverted_grad = tl_fsum BLOCK_SIZE inverted_grad;
          denom_grad = fmul (fdiv (Fin (- 1)) (fmul denom denom)) inverted_grad;
          num_grad = (\<lambda>l. fadd (num_grad l) (fmul (Fin 1) denom_grad));
          normed_grad = (\<lambda>l. fmul (num_grad l) (fexp (x_normed l)))
      in \<lparr>bwd_x_row = x_row, bwd_normed_grad = normed_grad,
          bwd_dx = max_grad_routing BLOCK_SIZE x_row normed_grad\<rparr>)"

definition softmax_bwd_kernel ::
  "(nat \<Rightarrow> fval) \<Rightarrow> (nat \<Rightarrow> fval) \<Rightarrow> nat \<Rightarrow> nat \<Rightarrow> nat \<Rightarrow> nat \<Rightarrow> fval list \<Rightarrow> fval list" where
  "softmax_bwd_kernel x_ptr dy_ptr x_rows x_cols BLOCK_SIZE pid dx =
     tl_store dx [0..<BLOCK_SIZE] (row_offset x_cols pid)
       (bwd_dx (softmax_bwd_block x_ptr dy_ptr x_cols BLOCK_SIZE pid)) (row_mask x_cols pid)"

text \<open>\<open>Softmax.backward\<close>: \<open>x\<close> is the input saved by the forward pass.\<close>

definition softmax_backward :: "(nat \<Rightarrow> fval) \<Rightarrow> fval matrix \<Rightarrow> fval matrix \<Rightarrow> fval matrix" where
  "softmax_backward junk x dy =
     (let dx = torch_empty junk (length (elems x));
          x_rows = nrows x;
          x_cols = ncols x;
          BLOCK_SIZE = next_power_of_2 x_cols;
          grid = [0..<x_rows]
      in \<lparr>nrows = x_rows, ncols = x_cols,
          elems = launch grid
            (softmax_bwd_kernel (device_ptr junk (elems x)) (device_ptr junk (elems dy))
               x_rows x_cols BLOCK_SIZE) dx\<rparr>)"

text \<open>
  The backward pass in the words of the specification, on one real row \<open>x\<close> with upstream
  gradient \<open>dy\<close>: the recomputed forward values \<open>m\<close>, \<open>e\<close>, \<open>d\<close>, \<open>inv\<close>, then
  \<open>num_grad = dy * inv\<close>, \<open>inv_grad = sum (dy * e)\<close>, \<open>denom_grad = - inv_grad / d^2\<close>,
  \<open>num_grad += denom_grad\<close>, \<open>normed_grad = num_grad * e\<close> and
  \<open>max_grad = - sum normed_grad\<close>.
\<close>

definition spec_e :: "real list \<Rightarrow> nat \<Rightarrow> real" where
  "spec_e x c = exp (x ! c - Max (set x))"

definition spec_d :: "real list \<Rightarrow> real" where
  "spec_d x = (\<Sum>c<length x. spec_e x c)"

definition spec_normed_grad :: "real list \<Rightarrow> real list \<Rightarrow> nat \<Rightarrow> real" where
  "spec_normed_grad x dy c =
     (let inv = 1 / spec_d x;
          num_grad = dy ! c * inv;
          inv_grad = (\<Sum>j<length x. dy ! j * spec_e x j);
          denom_grad = - inv_grad / (spec_d x)\<^sup>2
      in (num_grad + denom_grad) * spec_e x c)"

definition spec_max_grad :: "real list \<Rightarrow> real list \<Rightarrow> real" where
  "spec_max_grad x dy = - (\<Sum>c<length x. spec_normed_grad x dy c)"

subsection \<open>Row times column matrix product (03\_small\_matrix\_multiplication.ipynb)\<close>

text \<open>
  The error that the specification's taxonomy gives the host functions. Neither host
  function of the notebooks contains a check or a \<open>raise\<close>, so neither constructs it.
\<close>

datatype error = ShapeMismatch

definition x_row_offset :: "nat \<Rightarrow> nat \<Rightarrow> nat \<Rightarrow> nat" where
  "x_row_offset x_cols x_row_id l = (let x_row_start = x_row_id * x_cols in x_row_start + l)"

definition x_mask :: "nat \<Rightarrow> nat \<Rightarrow> nat \<Rightarrow> bool" where
  "x_mask x_cols x_row_id l =
     (let x_row_start = x_row_id * x_cols in x_row_offset x_cols x_row_id l < x_row_start + x_cols)"

definition y_col_offset :: "nat \<Rightarrow> nat \<Rightarrow> nat \<Rightarrow> nat" where
  "y_col_offset y_rows y_col_id l = (let y_col_start = y_col_id * y_rows in y_col_start + l)"

definition y_mask :: "nat \<Rightarrow> nat \<Rightarrow> nat \<Rightarrow> bool" where
  "y_mask y_rows y_col_id l =
     (let y_col_start = y_col_id * y_rows in y_col_offset y_rows y_col_id l < y_col_start + y_rows)"

definition output_offset :: "nat \<Rightarrow> nat \<times> nat \<Rightarrow> nat" where
  "output_offset y_cols pid = (case pid of (x_row_id, y_col_id) \<Rightarrow> x_row_id * y_cols + y_col_id)"

text \<open>
  The number that the kernel computes and calls \<open>output\<close>, then the kernel. It stores
  that one number and gives its store no mask: a single lane, always on.
\<close>

definition naive_matmul_output ::
  "(nat \<Rightarrow> real) \<Rightarrow> (nat \<Rightarrow> real) \<Rightarrow> nat \<Rightarrow> nat \<Rightarrow> nat \<Rightarrow> nat \<times> nat \<Rightarrow> real" where
  "naive_matmul_output x_ptr y_ptr x_cols y_rows BLOCK_SIZE pid =
     (case pid of (x_row_id, y_col_id) \<Rightarrow>
        let x_row = tl_load x_ptr (x_row_offset x_cols x_row_id) (x_mask x_cols x_row_id) (\<lambda>_. 0);
            y_col = tl_load y_ptr (y_col_offset y_rows y_col_id) (y_mask y_rows y_col_id) (\<lambda>_. 0)
        in tl_sum BLOCK_SIZE (\<lambda>l. x_row l * y_col l))"

definition naive_matmul_kernel ::
  "(nat \<Rightarrow> real) \<Rightarrow> (nat \<Rightarrow> real) \<Rightarrow> nat \<Rightarrow> nat \<Rightarrow> nat \<Rightarrow> nat \<Rightarrow> nat \<Rightarrow> nat \<times> nat \<Rightarrow> real list
   \<Rightarrow> real list" where
  "naive_matmul_kernel x_ptr y_ptr x_rows x_cols y_rows y_cols BLOCK_SIZE pid output =
     tl_store output [()] (\<lambda>_. output_offset y_cols pid)
       (\<lambda>_. naive_matmul_output x_ptr y_ptr x_cols y_rows BLOCK_SIZE pid) (\<lambda>_. True)"

text \<open>\<open>Y.T.contiguous()\<close>: the transpose, laid out row-major again.\<close>

definition transpose_contiguous :: "'a matrix \<Rightarrow> 'a matrix" where
  "transpose_contiguous Y =
     \<lparr>nrows = ncols Y, ncols = nrows Y,
      elems = map (\<lambda>(c, r). elems Y ! (r * ncols Y + c))
                (List.product [0..<ncols Y] [0..<nrows Y])\<rparr>"

text \<open>
  The host function \<open>matmul\<close> of the notebook. Its \<open>num_warps\<close> only tunes the
  execution and is left out.
\<close>

definition naive_matmul :: "(nat \<Rightarrow> real) \<Rightarrow> real matrix \<Rightarrow> real matrix \<Rightarrow> error + real matrix" where
  "naive_matmul junk X Y =
     (let x_rows = nrows X; x_cols = ncols X;
          y_rows = nrows Y; y_cols = ncols Y;
          output = torch_empty junk (x_rows * y_cols);
          BLOCK_SIZE = next_power_of_2 x_cols;
          grid = List.product [0..<x_rows] [0..<y_cols];
          Y = transpose_contiguous Y
      in Inr \<lparr>nrows = x_rows, ncols = y_cols,
            elems = launch grid
              (naive_matmul_kernel (device_ptr junk (elems X)) (device_ptr junk (elems Y))
                 x_rows x_cols y_rows y_cols BLOCK_SIZE) output\<rparr>)"

subsection \<open>Blocked matrix product (05\_block\_matmul.ipynb)\<close>

datatype dtype = Float16 | Float32

text \<open>
  \<open>torch.zeros(x_rows, y_cols, device="cuda")\<close> names no dtype, so the output buffer has
  the default dtype of the tensor library, a parameter here: the library's default is
  float32, and the notebook does not change it. The kernel converts its accumulator
  with \<open>accumulator.to(tl.float16)\<close>.
\<close>

definition output_buffer_dtype :: "dtype \<Rightarrow> dtype" where
  "output_buffer_dtype torch_default_dtype = torch_default_dtype"

definition accumulator_cast_dtype :: dtype where
  "accumulator_cast_dtype = Float16"

text \<open>
  The pointers of the two slabs before the loop over the inner dimension, for the lane
  \<open>(i, kk)\<close> of the X slab and the lane \<open>(kk, j)\<close> of the Y slab, and the masks of their
  loads in iteration \<open>k\<close>. The comparison is on integers, as \<open>y_rows - k * BLOCK_SIZE_K\<close>
  can be negative.
\<close>

definition x_ptrs_init :: "nat \<Rightarrow> nat \<Rightarrow> nat \<Rightarrow> nat \<times> nat \<Rightarrow> nat" where
  "x_ptrs_init x_cols BLOCK_SIZE_X x_pid l =
     (case l of (i, kk) \<Rightarrow>
        let x_row_start = x_pid * BLOCK_SIZE_X * x_cols;
            x_offsets = x_row_start + i * x_cols;
            k_offsets = kk
        in x_offsets + k_offsets)"

definition y_ptrs_init :: "nat \<Rightarrow> nat \<Rightarrow> nat \<Rightarrow> nat \<times> nat \<Rightarrow> nat" where
  "y_ptrs_init y_cols BLOCK_SIZE_Y y_pid l =
     (case l of (kk, j) \<Rightarrow>
        let y_col_start = y_pid * BLOCK_SIZE_Y;
            y_offsets = y_col_start + j;
            k_offsets = kk
        in k_offsets * y_cols + y_offsets)"

definition x_load_mask :: "nat \<Rightarrow> nat \<Rightarrow> nat \<Rightarrow> nat \<times> nat \<Rightarrow> bool" where
  "x_load_mask x_cols BLOCK_SIZE_K k l =
     (case l of (i, kk) \<Rightarrow> int kk < int x_cols - int k * int BLOCK_SIZE_K)"

definition y_load_mask :: "nat \<Rightarrow> nat \<Rightarrow> nat \<Rightarrow> nat \<times> nat \<Rightarrow> bool" where
  "y_load_mask y_rows BLOCK_SIZE_K k l =
     (case l of (kk, j) \<Rightarrow> int kk < int y_rows - int k * int BLOCK_SIZE_K)"

text \<open>\<open>tl.dot(a, b)\<close> of a block with \<open>BLOCK_SIZE_K\<close> columns and one with as many rows.\<close>

definition tl_dot :: "nat \<Rightarrow> (nat \<times> nat \<Rightarrow> real) \<Rightarrow> (nat \<times> nat \<Rightarrow> real) \<Rightarrow> nat \<times> nat \<Rightarrow> real" where
  "tl_dot BLOCK_SIZE_K a b l = (case l of (i, j) \<Rightarrow> (\<Sum>kk<BLOCK_SIZE_K. a (i, kk) * b (kk, j)))"

text \<open>
  One iteration of the loop over \<open>k\<close>, on the state the loop carries: the accumulator
  and the two blocks of pointers.
\<close>

definition k_step ::
  "(nat \<Rightarrow> real) \<Rightarrow> (nat \<Rightarrow> real) \<Rightarrow> nat \<Rightarrow> nat \<Rightarrow> nat \<Rightarrow> nat \<Rightarrow> nat
   \<Rightarrow> (nat \<times> nat \<Rightarrow> real) \<times> (nat \<times> nat \<Rightarrow> nat) \<times> (nat \<times> nat \<Rightarrow> nat)
   \<Rightarrow> (nat \<times> nat \<Rightarrow> real) \<times> (nat \<times> nat \<Rightarrow> nat) \<times> (nat \<times> nat \<Rightarrow> nat)" where
  "k_step x_ptr y_ptr x_cols y_rows y_cols BLOCK_SIZE_K k st =
     (case st of (accumulator, x_ptrs, y_ptrs) \<Rightarrow>
        let a = tl_load x_ptr x_ptrs (x_load_mask x_cols BLOCK_SIZE_K k) (\<lambda>_. 0);
            b = tl_load y_ptr y_ptrs (y_load_mask y_rows BLOCK_SIZE_K k) (\<lambda>_. 0);
            result = tl_dot BLOCK_SIZE_K a b
        in (\<lambda>l. accumulator l + result l,
            \<lambda>l. x_ptrs l + BLOCK_SIZE_K,
            \<lambda>l. y_ptrs l + BLOCK_SIZE_K * y_cols))"

definition output_ptrs :: "nat \<Rightarrow> nat \<Rightarrow> nat \<Rightarrow> nat \<times> nat \<Rightarrow> nat \<times> nat \<Rightarrow> nat" where
  "output_ptrs y_cols BLOCK_SIZE_X BLOCK_SIZE_Y pid l =
     (case pid of (x_pid, y_pid) \<Rightarrow> case l of (i, j) \<Rightarrow>
        let output_x_start = x_pid * BLOCK_SIZE_X;
            output_y_start = y_pid * BLOCK_SIZE_Y;
            output_x_offsets = output_x_start + i;
            output_y_offsets = output_y_start + j
        in output_x_offsets * y_cols + output_y_offsets)"

definition output_mask :: "nat \<Rightarrow> nat \<Rightarrow> nat \<Rightarrow> nat \<Rightarrow> nat \<times> nat \<Rightarrow> nat \<times> nat \<Rightarrow> bool" where
  "output_mask x_rows y_cols BLOCK_SIZE_X BLOCK_SIZE_Y pid l =
     (case pid of (x_pid, y_pid) \<Rightarrow> case l of (i, j) \<Rightarrow>
        let output_x_start = x_pid * BLOCK_SIZE_X;
            output_y_start = y_pid * BLOCK_SIZE_Y;
            output_x_rows = output_x_start + i;
            output_y_offsets = output_y_start + j
        in output_x_rows < x_rows \<and> output_y_offsets < y_cols)"

text \<open>
  The block that the kernel computes and calls \<open>output\<close>: the accumulator after the
  loop, converted. \<open>to\<close> is the conversion \<open>accumulator.to(dtype)\<close>; in exact
  arithmetic it is \<open>exact_to\<close>, which changes no value. Then the kernel with its masked
  store.
\<close>

definition exact_to :: "dtype \<Rightarrow> real \<Rightarrow> real" where
  "exact_to dtype v = v"

definition tiled_matmul_output ::
  "(dtype \<Rightarrow> real \<Rightarrow> real) \<Rightarrow> (nat \<Rightarrow> real) \<Rightarrow> (nat \<Rightarrow> real) \<Rightarrow> nat \<Rightarrow> nat \<Rightarrow> nat
   \<Rightarrow> nat \<Rightarrow> nat \<Rightarrow> nat \<Rightarrow> nat \<times> nat \<Rightarrow> nat \<times> nat \<Rightarrow> real" where
  "tiled_matmul_output to x_ptr y_ptr x_cols y_rows y_cols
       BLOCK_SIZE_X BLOCK_SIZE_Y BLOCK_SIZE_K pid =
     (case pid of (x_pid, y_pid) \<Rightarrow>
        let x_ptrs = x_ptrs_init x_cols BLOCK_SIZE_X x_pid;
            y_ptrs = y_ptrs_init y_cols BLOCK_SIZE_Y y_pid;
            accumulator = (\<lambda>_. 0);
            (accumulator, x_ptrs, y_ptrs) =
               fold (k_step x_ptr y_ptr x_cols y_rows y_cols BLOCK_SIZE_K)
                 [0..<cdiv x_cols BLOCK_SIZE_K] (accumulator, x_ptrs, y_ptrs)
        in (\<lambda>l. to accumulator_cast_dtype (accumulator l)))"

definition tiled_matmul_kernel ::
  "(dtype \<Rightarrow> real \<Rightarrow> real) \<Rightarrow> (nat \<Rightarrow> real) \<Rightarrow> (nat \<Rightarrow> real) \<Rightarrow> nat \<Rightarrow> nat \<Rightarrow> nat \<Rightarrow> nat
   \<Rightarrow> nat \<Rightarrow> nat \<Rightarrow> nat \<Rightarrow> nat \<times> nat \<Rightarrow> real list \<Rightarrow> real list" where
  "tiled_matmul_kernel to x_ptr y_ptr x_rows x_cols y_rows y_cols
       BLOCK_SIZE_X BLOCK_SIZE_Y BLOCK_SIZE_K pid output =
     tl_store output (List.product [0..<BLOCK_SIZE_X] [0..<BLOCK_SIZE_Y])
       (output_ptrs y_cols BLOCK_SIZE_X BLOCK_SIZE_Y pid)
       (tiled_matmul_output to x_ptr y_ptr x_cols y_rows y_cols
          BLOCK_SIZE_X BLOCK_SIZE_Y BLOCK_SIZE_K pid)
       (output_mask x_rows y_cols BLOCK_SIZE_X BLOCK_SIZE_Y pid)"

definition tiled_matmul ::
  "(dtype \<Rightarrow> real \<Rightarrow> real) \<Rightarrow> (nat \<Rightarrow> real) \<Rightarrow> real matrix \<Rightarrow> real matrix \<Rightarrow> error + real matrix" where
  "tiled_matmul to junk X Y =
     (let x_rows = nrows X; x_cols = ncols X;
          y_rows = nrows Y; y_cols = ncols Y;
          output = torch_zeros (x_rows * y_cols);
          BLOCK_SIZE_X = 16;
          BLOCK_SIZE_Y = 16;
          BLOCK_SIZE_K = 32;
          grid = List.product [0..<cdiv x_rows BLOCK_SIZE_X] [0..<cdiv y_cols BLOCK_SIZE_Y]
      in Inr \<lparr>nrows = x_rows, ncols = y_cols,
            elems = launch grid
              (tiled_matmul_kernel to (device_ptr junk (elems X)) (device_ptr junk (elems Y))
                 x_rows x_cols y_rows y_cols BLOCK_SIZE_X BLOCK_SIZE_Y BLOCK_SIZE_K) output\<rparr>)"

text \<open>
  The unblocked reference product in the words of the specification: three loops, over
  the rows \<open>i\<close> of X, the columns \<open>j\<close> of Y and the inner index \<open>k\<close>, the innermost
  adding \<open>X[i][k] * Y[k][j]\<close> to a sum that starts at 0.
\<close>

definition reference_matmul :: "real matrix \<Rightarrow> real matrix \<Rightarrow> real matrix" where
  "reference_matmul X Y =
     \<lparr>nrows = nrows X, ncols = ncols Y,
      elems = map (\<lambda>(i, j). fold (\<lambda>k acc. acc + elems X ! (i * ncols X + k) * elems Y ! (k * ncols Y + j))
                              [0..<ncols X] 0)
                (List.product [0..<nrows X] [0..<ncols Y])\<rparr>"

text \<open>
  The product that stops at the shorter of the two inner extents: entry \<open>(i, j)\<close> is
  the dot product of the first \<open>min (ncols X) (nrows Y)\<close> elements of row \<open>i\<close> of X and
  of column \<open>j\<close> of Y.
\<close>

definition truncated_matmul :: "real matrix \<Rightarrow> real matrix \<Rightarrow> real matrix" where
  "truncated_matmul X Y =
     \<lparr>nrows = nrows X, ncols = ncols Y,
      elems = map (\<lambda>(i, j). \<Sum>k<min (ncols X) (nrows Y).
                      elems X ! (i * ncols X + k) * elems Y ! (k * ncols Y + j))
                (List.product [0..<nrows X] [0..<ncols Y])\<rparr>"

subsection \<open>What the cells of a launch write\<close>

text \<open>
  A cell, as a function on the output buffer, writes at offset \<open>i\<close> when it changes the
  element at \<open>i\<close> of some buffer that has this element.
\<close>

definition writes_at :: "('a list \<Rightarrow> 'a list) \<Rightarrow> nat \<Rightarrow> bool" where
  "writes_at cell i \<longleftrightarrow> (\<exists>buf. i < length buf \<and> cell buf ! i \<noteq> buf ! i)"

text \<open>
  The cells of a grid partition an output of \<open>extent\<close> elements among them: no offset is
  written by two distinct cells, and every offset inside the extent is written by
  exactly one cell.
\<close>

definition partitions :: "'p list \<Rightarrow> ('p \<Rightarrow> 'a list \<Rightarrow> 'a list) \<Rightarrow> nat \<Rightarrow> bool" where
  "partitions grid kern extent \<longleftrightarrow>
     (\<forall>p\<in>set grid. \<forall>q\<in>set grid. p \<noteq> q \<longrightarrow>
        (\<forall>i. \<not> (writes_at (kern p) i \<and> writes_at (kern q) i)))
     \<and> (\<forall>i<extent. \<exists>!p. p \<in> set grid \<and> writes_at (kern p) i)"

section \<open>Stores and launches\<close>

lemma length_tl_store [simp]:
  "length (tl_store buf lanes offsets vals msk) = length buf"
  unfolding tl_store_def by (induction lanes arbitrary: buf) simp_all

text \<open>
  What a store leaves at offset \<open>i\<close>: if every lane that writes \<open>i\<close> writes \<open>v\<close>, and
  either some lane does write \<open>i\<close> or \<open>v\<close> was there before, then \<open>v\<close> is there after.
\<close>

lemma tl_store_nth:
  assumes "i < length buf"
    and "\<And>l. l \<in> set lanes \<Longrightarrow> msk l \<Longrightarrow> offsets l = i \<Longrightarrow> vals l = v"
    and "buf ! i = v \<or> (\<exists>l\<in>set lanes. msk l \<and> offsets l = i)"
  shows "tl_store buf lanes offsets vals msk ! i = v"
  using assms
proof (induction lanes arbitrary: buf)
  case Nil
  then show ?case by (simp add: tl_store_def)
next
  case (Cons a lanes)
  define b where "b = (if msk a then buf[offsets a := vals a] else buf)"
  have step: "tl_store buf (a # lanes) offsets vals msk = tl_store b lanes offsets vals msk"
    by (simp add: tl_store_def b_def)
  have len: "i < length b" using Cons.prems(1) by (simp add: b_def)
  have same: "\<And>l. l \<in> set lanes \<Longrightarrow> msk l \<Longrightarrow> offsets l = i \<Longrightarrow> vals l = v"
    using Cons.prems(2) by simp
  have here: "b ! i = v \<or> (\<exists>l\<in>set lanes. msk l \<and> offsets l = i)"
  proof (cases "msk a \<and> offsets a = i")
    case True
    then have "vals a = v" using Cons.prems(2) [of a] by simp
    then have "b ! i = v" using True Cons.prems(1) by (simp add: b_def)
    then show ?thesis ..
  next
    case False
    then have bi: "b ! i = buf ! i" by (auto simp: b_def)
    from Cons.prems(3) show ?thesis
    proof
      assume "buf ! i = v"
      then show ?thesis using bi by simp
    next
      assume "\<exists>l\<in>set (a # lanes). msk l \<and> offsets l = i"
      then obtain l where l: "l \<in> set (a # lanes)" "msk l" "offsets l = i" by blast
      with False have "l \<in> set lanes" by auto
      with l show ?thesis by blast
    qed
  qed
  show ?case unfolding step by (rule Cons.IH [OF len same here])
qed

lemma tl_store_untouched:
  assumes "\<And>l. l \<in> set lanes \<Longrightarrow> msk l \<Longrightarrow> offsets l \<noteq> i"
  shows "tl_store buf lanes offsets vals msk ! i = buf ! i"
  using assms unfolding tl_store_def
  by (induction lanes arbitrary: buf) auto

text \<open>
  A launch whose cells each end in one masked store is one store over all the lanes of
  all the cells.
\<close>

lemma launch_as_store:
  assumes "\<And>p b. kern p b = tl_store b (lanes p) (offsets p) (vals p) (msk p)"
  shows "launch grid kern buf =
         tl_store buf (concat (map (\<lambda>p. map (Pair p) (lanes p)) grid))
           (\<lambda>(p, l). offsets p l) (\<lambda>(p, l). vals p l) (\<lambda>(p, l). msk p l)"
proof (induction grid arbitrary: buf)
  case Nil
  then show ?case by (simp add: launch_def tl_store_def)
next
  case (Cons p grid)
  have "launch (p # grid) kern buf = launch grid kern (kern p buf)"
    by (simp add: launch_def)
  also have "\<dots> = tl_store (tl_store buf (lanes p) (offsets p) (vals p) (msk p))
        (concat (map (\<lambda>p. map (Pair p) (lanes p)) grid))
        (\<lambda>(p, l). offsets p l) (\<lambda>(p, l). vals p l) (\<lambda>(p, l). msk p l)"
    by (simp add: Cons.IH assms)
  also have "\<dots> = tl_store buf (concat (map (\<lambda>p. map (Pair p) (lanes p)) (p # grid)))
        (\<lambda>(p, l). offsets p l) (\<lambda>(p, l). vals p l) (\<lambda>(p, l). msk p l)"
    by (simp add: tl_store_def fold_map comp_def cong: if_cong)
  finally show ?case .
qed

lemma length_launch:
  assumes "\<And>p b. kern p b = tl_store b (lanes p) (offsets p) (vals p) (msk p)"
  shows "length (launch grid kern buf) = length buf"
  by (simp add: launch_as_store [OF assms])

lemma launch_nth:
  assumes k: "\<And>p b. kern p b = tl_store b (lanes p) (offsets p) (vals p) (msk p)"
    and "i < length buf"
    and same: "\<And>p l. p \<in> set grid \<Longrightarrow> l \<in> set (lanes p) \<Longrightarrow> msk p l \<Longrightarrow> offsets p l = i
               \<Longrightarrow> vals p l = v"
    and hit: "\<exists>p\<in>set grid. \<exists>l\<in>set (lanes p). msk p l \<and> offsets p l = i"
  shows "launch grid kern buf ! i = v"
proof -
  from hit obtain p l where pl: "p \<in> set grid" "l \<in> set (lanes p)" "msk p l" "offsets p l = i"
    by blast
  show ?thesis
    unfolding launch_as_store [OF k]
  proof (rule tl_store_nth)
    show "i < length buf" by fact
  next
    fix q
    assume "q \<in> set (concat (map (\<lambda>p. map (Pair p) (lanes p)) grid))"
      and "case q of (p, l) \<Rightarrow> msk p l" and "(case q of (p, l) \<Rightarrow> offsets p l) = i"
    then obtain p' l' where "q = (p', l')" "p' \<in> set grid" "l' \<in> set (lanes p')"
      "msk p' l'" "offsets p' l' = i"
      by auto
    then show "(case q of (p, l) \<Rightarrow> vals p l) = v"
      using same by simp
  next
    have "(p, l) \<in> set (concat (map (\<lambda>p. map (Pair p) (lanes p)) grid))"
      using pl by auto
    then show "buf ! i = v \<or> (\<exists>l\<in>set (concat (map (\<lambda>p. map (Pair p) (lanes p)) grid)).
        (case l of (p, l) \<Rightarrow> msk p l) \<and> (case l of (p, l) \<Rightarrow> offsets p l) = i)"
      using pl by (intro disjI2 bexI [of _ "(p, l)"]) auto
  qed
qed

subsection \<open>Block counts\<close>

lemma cdiv_covers:
  assumes "0 < S" "i < n"
  shows "i div S < cdiv n S"
proof -
  have "i div S \<le> (n - 1) div S" using assms by (intro div_le_mono) simp
  also have "\<dots> < (n - 1) div S + 1" by simp
  also have "\<dots> = (n - 1 + S) div S" using assms(1) div_add_self2 [of S "n - 1"] by simp
  also have "n - 1 + S = n + S - 1" using assms by simp
  also have "(n + S - 1) div S = cdiv n S" by (simp add: cdiv_def)
  finally show ?thesis .
qed

section \<open>Block sizes and reductions over lanes\<close>

lemma np2_from_ge: "0 < p \<Longrightarrow> n \<le> np2_from p n"
  by (induction p n rule: np2_from.induct) (subst np2_from.simps, auto)

lemma next_power_of_2_ge: "n \<le> next_power_of_2 n"
  unfolding next_power_of_2_def by (rule np2_from_ge) simp

lemma tl_fsum_Suc: "tl_fsum (Suc n) v = fadd (tl_fsum n v) (v n)"
  by (simp add: tl_fsum_def)

lemma tl_fsum_finite:
  assumes "\<And>l. l < n \<Longrightarrow> v l = Fin (g l)"
  shows "tl_fsum n v = Fin (\<Sum>l<n. g l)"
  using assms
proof (induction n)
  case 0
  show ?case by (simp add: tl_fsum_def)
next
  case (Suc n)
  then show ?case by (simp add: tl_fsum_Suc)
qed

lemma fsum_list_finite: "fsum_list (map Fin xs) = Fin (sum_list xs)"
proof -
  have "fold (\<lambda>v s. fadd s v) (map Fin xs) (Fin a) = Fin (a + sum_list xs)" for a
    by (induction xs arbitrary: a) (simp_all add: add.assoc)
  from this [of 0] show ?thesis by (simp add: fsum_list_def)
qed

lemma tl_max_Suc: "tl_max (Suc n) v = fmax (tl_max n v) (v n)"
  by (simp add: tl_max_def)

lemma tl_max_row:
  assumes "0 < C" and "\<And>l. v l = (if l < C then Fin (f l) else NInf)"
  shows "tl_max n v = (if n = 0 then NInf else Fin (Max (f ` {..<min n C})))"
proof (induction n)
  case 0
  show ?case by (simp add: tl_max_def)
next
  case (Suc n)
  have step: "tl_max (Suc n) v = fmax (tl_max n v) (v n)" by (rule tl_max_Suc)
  show ?case
  proof (cases "n = 0")
    case True
    have "tl_max (Suc n) v = Fin (f 0)"
      unfolding step using True assms by (simp add: tl_max_def)
    then show ?thesis using True assms(1) by (simp add: lessThan_Suc)
  next
    case False
    show ?thesis
    proof (cases "n < C")
      case True
      then have m: "min (Suc n) C = Suc n" "min n C = n" by simp_all
      have "0 \<in> {..<n}" using False by simp
      then have ne: "f ` {..<n} \<noteq> {}" by blast
      have "Max (insert (f n) (f ` {..<n})) = max (f n) (Max (f ` {..<n}))"
        by (rule Max_insert [OF _ ne]) simp
      then have "Max (f ` {..<Suc n}) = max (Max (f ` {..<n})) (f n)"
        by (simp add: lessThan_Suc max.commute)
      moreover have "tl_max n v = Fin (Max (f ` {..<n}))" using Suc False m by simp
      moreover have "v n = Fin (f n)" using True assms(2) by simp
      ultimately show ?thesis unfolding step m by simp
    next
      case nlt: False
      then have m: "min (Suc n) C = C" "min n C = C" by simp_all
      have "tl_max n v = Fin (Max (f ` {..<C}))" using Suc False m by simp
      moreover have "v n = NInf" using nlt assms(2) by simp
      ultimately show ?thesis unfolding step m by simp
    qed
  qed
qed

lemma sum_masked_lanes:
  fixes g :: "nat \<Rightarrow> real"
  assumes "C \<le> n"
  shows "(\<Sum>l<n. if l < C then g l else 0) = (\<Sum>l<C. g l)"
proof -
  have "(\<Sum>l<n. if l < C then g l else 0) = (\<Sum>l\<in>{..<n} \<inter> {l. l < C}. g l)"
    by (simp add: sum.inter_restrict)
  also have "{..<n} \<inter> {l. l < C} = {..<C}" using assms by auto
  finally show ?thesis .
qed

section \<open>Vector addition\<close>

lemma add_kernel_store:
  "add_kernel junk xp yp n S pid b =
     tl_store b [0..<S] (add_offsets S pid)
       (\<lambda>l. tl_load xp (add_offsets S pid) (add_mask n S pid) junk l
           + tl_load yp (add_offsets S pid) (add_mask n S pid) junk l)
       (add_mask n S pid)"
  by (simp add: add_kernel_def Let_def)

lemma add_launch_length: "length (add_launch junk S x y) = length x"
  unfolding add_launch_def Let_def
  by (simp add: length_launch [OF add_kernel_store] torch_empty_def)

lemma add_launch_nth:
  assumes "0 < S" "length y = length x" "i < length x"
  shows "add_launch junk S x y ! i = x ! i + y ! i"
  unfolding add_launch_def Let_def
proof (rule launch_nth [OF add_kernel_store])
  show "i < length (torch_empty junk (length x))" using assms by (simp add: torch_empty_def)
next
  fix p l
  assume "add_mask (length (torch_empty junk (length x))) S p l" "add_offsets S p l = i"
  then show "tl_load (device_ptr junk x) (add_offsets S p)
        (add_mask (length (torch_empty junk (length x))) S p) junk l
      + tl_load (device_ptr junk y) (add_offsets S p)
        (add_mask (length (torch_empty junk (length x))) S p) junk l = x ! i + y ! i"
    using assms by (simp add: tl_load_def device_ptr_def)
next
  let ?n = "length (torch_empty junk (length x))"
  have n: "?n = length x" by (simp add: torch_empty_def)
  have "i div S \<in> set [0..<cdiv ?n S]" using assms cdiv_covers [of S i ?n] n by simp
  moreover have "i mod S \<in> set [0..<S]" using assms by simp
  moreover have "add_offsets S (i div S) (i mod S) = i" by (simp add: add_offsets_def)
  moreover have "add_mask ?n S (i div S) (i mod S)"
    using assms n by (simp add: add_mask_def add_offsets_def)
  ultimately show "\<exists>p\<in>set [0..<cdiv ?n S]. \<exists>l\<in>set [0..<S]. add_mask ?n S p l \<and> add_offsets S p l = i"
    by blast
qed

text \<open>
  C6. For every length N and every block size S (positive, as a block size is), the
  output of the vector addition is the elementwise sum of its two inputs of length N,
  at every index of \<open>[0, N)\<close>, whether or not S divides N; so is the output of the
  notebook's \<open>add\<close>, whose block size is 1024.
\<close>

theorem add_elementwise_sum:
  assumes "0 < S" and "length x = N" and "length y = N"
  shows "add_launch junk S x y = map2 (+) x y \<and> add junk x y = map2 (+) x y"
proof -
  have "add_launch junk B x y = map2 (+) x y" if "0 < B" for B
  proof (rule nth_equalityI)
    show "length (add_launch junk B x y) = length (map2 (+) x y)"
      using assms by (simp add: add_launch_length)
  next
    fix i assume "i < length (add_launch junk B x y)"
    then have i: "i < length x" by (simp add: add_launch_length)
    then have "add_launch junk B x y ! i = x ! i + y ! i"
      using that assms by (intro add_launch_nth) simp_all
    then show "add_launch junk B x y ! i = map2 (+) x y ! i" using i assms by simp
  qed
  from this [of S] this [of 1024] show ?thesis using assms(1) by (simp add: add_def)
qed

theorem add_elementwise_sum_witness:
  "add_launch (\<lambda>_. 99) 2 [1, 2, 3] [10, 20, 30] = [11, 22, 33]
   \<and> add (\<lambda>_. 99) [1, 2, 3] [10, 20, 30] = [11, 22, 33]"
  using add_elementwise_sum [of 2 "[1, 2, 3]" 3 "[10, 20, 30]" "\<lambda>_. 99"] by simp

subsection \<open>Rows of a row-major matrix\<close>

lemma row_col_bound:
  fixes r c R C :: nat
  assumes "r < R" "c < C"
  shows "r * C + c < R * C"
proof -
  have "r * C + c < r * C + C" using assms(2) by simp
  also have "\<dots> = Suc r * C" by simp
  also have "\<dots> \<le> R * C" using assms(1) by (intro mult_le_mono1) simp
  finally show ?thesis .
qed

lemma row_col_unique:
  fixes p l r c C :: nat
  assumes "l < C" "c < C" "p * C + l = r * C + c"
  shows "p = r \<and> l = c"
proof -
  have "(p * C + l) div C = p" "(p * C + l) mod C = l" using assms(1) by simp_all
  moreover have "(r * C + c) div C = r" "(r * C + c) mod C = c" using assms(2) by simp_all
  ultimately show ?thesis using assms(3) by simp
qed

lemma length_row_of:
  assumes "well_formed M" "r < nrows M"
  shows "length (row_of M r) = ncols M"
proof -
  have "Suc r * ncols M \<le> nrows M * ncols M" using assms(2) by (intro mult_le_mono1) simp
  then show ?thesis using assms(1) by (simp add: row_of_def well_formed_def)
qed

lemma nth_row_of:
  assumes "well_formed M" "r < nrows M" "c < ncols M"
  shows "row_of M r ! c = elems M ! (r * ncols M + c)"
proof -
  have "r * ncols M + c < length (elems M)"
    using assms row_col_bound [of r "nrows M" c "ncols M"] by (simp add: well_formed_def)
  then show ?thesis using assms(3) by (simp add: row_of_def)
qed

lemma row_of_eqI:
  assumes "well_formed M" "r < nrows M"
    and "\<And>c. c < ncols M \<Longrightarrow> elems M ! (r * ncols M + c) = f c"
  shows "row_of M r = map f [0..<ncols M]"
  using assms by (intro nth_equalityI) (simp_all add: length_row_of nth_row_of)

section \<open>Softmax forward\<close>

lemma row_mask_iff: "row_mask C pid l \<longleftrightarrow> l < C"
  by (simp add: row_mask_def row_offset_def)

lemma spec_d_pos: "row \<noteq> [] \<Longrightarrow> 0 < spec_d row"
  unfolding spec_d_def spec_e_def
  by (intro sum_pos) (simp_all add: lessThan_empty_iff)

text \<open>
  The variables of one cell of the forward kernel, when the cell's row of the input
  holds the finite values \<open>row\<close>.
\<close>

lemma softmax_fwd_block_values:
  assumes C: "0 < length row" "length row \<le> BS"
    and x: "\<And>l. l < length row \<Longrightarrow> x_ptr (pid * length row + l) = Fin (row ! l)"
  defines "blk \<equiv> softmax_fwd_block x_ptr (length row) BS pid"
  shows "fwd_row blk l = (if l < length row then Fin (row ! l) else NInf)"
    and "fwd_row_max blk = Fin (Max (set row))"
    and "fwd_num blk l = Fin (if l < length row then spec_e row l else 0)"
    and "fwd_denom blk = Fin (spec_d row)"
    and "fwd_output blk l = Fin (if l < length row then spec_e row l / spec_d row else 0)"
proof -
  let ?C = "length row"
  define m where "m = Max (set row)"
  define ld where "ld = tl_load x_ptr (row_offset ?C pid) (row_mask ?C pid) (\<lambda>_. NInf)"
  have ld: "ld l = (if l < ?C then Fin (row ! l) else NInf)" for l
    using x by (simp add: ld_def tl_load_def row_mask_iff row_offset_def)
  have BS: "BS \<noteq> 0" "min BS ?C = ?C" using C by linarith+
  have "set row = (\<lambda>l. row ! l) ` {..<?C}"
    by (auto simp: set_conv_nth)
  then have mx: "tl_max BS ld = Fin m"
    using tl_max_row [of ?C ld "\<lambda>l. row ! l" BS, OF C(1) ld] BS by (simp add: m_def)
  have num: "fexp (fsub (ld l) (Fin m)) = Fin (if l < ?C then spec_e row l else 0)" for l
    by (simp add: ld fsub_def spec_e_def m_def)
  have den: "tl_fsum BS (\<lambda>l. fexp (fsub (ld l) (Fin m))) = Fin (spec_d row)"
  proof -
    have "tl_fsum BS (\<lambda>l. fexp (fsub (ld l) (Fin m)))
        = Fin (\<Sum>l<BS. if l < ?C then spec_e row l else 0)"
      by (rule tl_fsum_finite) (rule num)
    also have "(\<Sum>l<BS. if l < ?C then spec_e row l else 0) = (\<Sum>l<?C. spec_e row l)"
      by (rule sum_masked_lanes) (rule C(2))
    finally show ?thesis by (simp add: spec_d_def)
  qed
  have pos: "0 < spec_d row" using C(1) by (intro spec_d_pos) auto
  have blk: "blk = \<lparr>fwd_row = ld, fwd_row_max = Fin m,
      fwd_num = (\<lambda>l. fexp (fsub (ld l) (Fin m))), fwd_denom = Fin (spec_d row),
      fwd_output = (\<lambda>l. fdiv (fexp (fsub (ld l) (Fin m))) (Fin (spec_d row)))\<rparr>"
    unfolding blk_def softmax_fwd_block_def Let_def ld_def [symmetric] mx den ..
  show "fwd_row blk l = (if l < length row then Fin (row ! l) else NInf)"
    by (simp add: blk ld)
  show "fwd_row_max blk = Fin (Max (set row))" by (simp add: blk m_def)
  show "fwd_num blk l = Fin (if l < length row then spec_e row l else 0)"
    by (simp add: blk num)
  show "fwd_denom blk = Fin (spec_d row)" by (simp add: blk)
  show "fwd_output blk l = Fin (if l < length row then spec_e row l / spec_d row else 0)"
    using pos by (simp add: blk num)
qed

lemma softmax_fwd_shape:
  "nrows (softmax_fwd junk x) = nrows x" "ncols (softmax_fwd junk x) = ncols x"
  "length (elems (softmax_fwd junk x)) = length (elems x)"
  unfolding softmax_fwd_def Let_def
  by (simp_all add: length_launch [OF softmax_fwd_kernel_def] torch_empty_def)

text \<open>
  The element that the launch leaves at column \<open>c\<close> of row \<open>r\<close> is lane \<open>c\<close> of the
  \<open>output\<close> of cell \<open>r\<close>.
\<close>

lemma softmax_fwd_stored:
  assumes wf: "well_formed x" and r: "r < nrows x" and c: "c < ncols x"
  shows "elems (softmax_fwd junk x) ! (r * ncols x + c)
       = fwd_output (softmax_fwd_block (device_ptr junk (elems x)) (ncols x)
                       (next_power_of_2 (ncols x)) r) c"
proof -
  let ?C = "ncols x" and ?R = "nrows x"
  let ?BS = "next_power_of_2 ?C"
  let ?xp = "device_ptr junk (elems x)"
  have "launch [0..<?R] (softmax_fwd_kernel ?xp ?R ?C ?BS)
          (torch_empty junk (length (elems x))) ! (r * ?C + c)
        = fwd_output (softmax_fwd_block ?xp ?C ?BS r) c"
  proof (rule launch_nth [OF softmax_fwd_kernel_def])
    show "r * ?C + c < length (torch_empty junk (length (elems x)))"
      using wf r c row_col_bound [of r ?R c ?C] by (simp add: torch_empty_def well_formed_def)
  next
    fix p l
    assume "row_mask ?C p l" "row_offset ?C p l = r * ?C + c"
    then have "p = r \<and> l = c"
      using c row_col_unique [of l ?C c p r] by (simp add: row_mask_iff row_offset_def)
    then show "fwd_output (softmax_fwd_block ?xp ?C ?BS p) l
        = fwd_output (softmax_fwd_block ?xp ?C ?BS r) c"
      by simp
  next
    have "r \<in> set [0..<?R]" using r by simp
    moreover have "c \<in> set [0..<?BS]" using c next_power_of_2_ge [of ?C] by simp
    moreover have "row_mask ?C r c \<and> row_offset ?C r c = r * ?C + c"
      using c by (simp add: row_mask_iff row_offset_def)
    ultimately show "\<exists>p\<in>set [0..<?R]. \<exists>l\<in>set [0..<?BS].
        row_mask ?C p l \<and> row_offset ?C p l = r * ?C + c"
      by blast
  qed
  then show ?thesis by (simp add: softmax_fwd_def Let_def)
qed

lemma finite_matrix_simps [simp]:
  "nrows (finite_matrix M) = nrows M" "ncols (finite_matrix M) = ncols M"
  "elems (finite_matrix M) = map Fin (elems M)"
  "well_formed (finite_matrix M) = well_formed M"
  by (simp_all add: finite_matrix_def well_formed_def)

lemma finite_row_ptr:
  assumes "well_formed M" "r < nrows M" "l < ncols M"
  shows "device_ptr junk (map Fin (elems M)) (r * length (row_of M r) + l) = Fin (row_of M r ! l)"
  using assms row_col_bound [of r "nrows M" l "ncols M"]
  by (simp add: device_ptr_def nth_row_of length_row_of well_formed_def)

lemma softmax_weights_sum:
  assumes "row \<noteq> []"
  shows "(\<Sum>c<length row. spec_e row c / spec_d row) = 1"
proof -
  have "0 < spec_d row" using assms by (rule spec_d_pos)
  then show ?thesis
    by (simp add: sum_divide_distrib [symmetric] spec_d_def [symmetric])
qed

text \<open>
  C3. For an R by C input of finite values with at least one column, the forward pass
  gives row \<open>r\<close> to grid cell \<open>r\<close>. The cell loads the row with \<open>-inf\<close> in every lane of
  the masked tail; the maximum \<open>m\<close> that it computes is the maximum of the row itself;
  its numerator is \<open>e = exp (row - m)\<close> on the row; its denominator is \<open>d = sum e\<close>; its
  output is \<open>e / d\<close>, and the launch stores exactly that under the row mask. So row \<open>r\<close>
  of the result is \<open>e c / d\<close> at each column \<open>c\<close> of its true extent, and it sums to 1
  over that extent.
\<close>

theorem softmax_fwd_rows:
  fixes junk :: "nat \<Rightarrow> fval"
  assumes "well_formed xr" and "0 < ncols xr" and "r < nrows xr"
  defines "blk \<equiv> softmax_fwd_block (device_ptr junk (elems (finite_matrix xr))) (ncols xr)
                    (next_power_of_2 (ncols xr)) r"
    and "row \<equiv> row_of xr r"
  shows "(\<forall>l<next_power_of_2 (ncols xr).
            fwd_row blk l = (if l < ncols xr then Fin (row ! l) else NInf))
       \<and> fwd_row_max blk = Fin (Max (set row))
       \<and> (\<forall>c<ncols xr. fwd_num blk c = Fin (exp (row ! c - Max (set row))))
       \<and> fwd_denom blk = Fin (\<Sum>c<ncols xr. exp (row ! c - Max (set row)))
       \<and> (\<forall>c<ncols xr. fwd_output blk c = fdiv (fwd_num blk c) (fwd_denom blk))
       \<and> (\<forall>c<ncols xr. elems (softmax_fwd junk (finite_matrix xr)) ! (r * ncols xr + c)
                          = fwd_output blk c)
       \<and> row_of (softmax_fwd junk (finite_matrix xr)) r
           = map (\<lambda>c. Fin (spec_e row c / spec_d row)) [0..<ncols xr]
       \<and> fsum_list (row_of (softmax_fwd junk (finite_matrix xr)) r) = Fin 1"
proof -
  let ?out = "softmax_fwd junk (finite_matrix xr)"
  let ?w = "\<lambda>c. spec_e row c / spec_d row"
  have len: "length row = ncols xr" unfolding row_def using assms(1,3) by (rule length_row_of)
  have ne: "row \<noteq> []" using len assms(2) by auto
  have pos: "0 < spec_d row" using ne by (rule spec_d_pos)
  have blk: "blk = softmax_fwd_block (device_ptr junk (map Fin (elems xr))) (length row)
      (next_power_of_2 (ncols xr)) r"
    by (simp add: blk_def len)
  have C: "0 < length row" "length row \<le> next_power_of_2 (ncols xr)"
    using assms(2) len next_power_of_2_ge [of "ncols xr"] by simp_all
  have xp: "device_ptr junk (map Fin (elems xr)) (r * length row + l) = Fin (row ! l)"
    if "l < length row" for l
    unfolding row_def using assms(1,3) that len by (intro finite_row_ptr) (simp_all add: row_def)
  note vals = softmax_fwd_block_values [OF C xp, folded blk]
  have stored: "elems ?out ! (r * ncols xr + c) = fwd_output blk c" if "c < ncols xr" for c
    using softmax_fwd_stored [of "finite_matrix xr" r c junk] assms(1,3) that
    by (simp add: blk_def)
  have shape: "nrows ?out = nrows xr" "ncols ?out = ncols xr"
    by (simp_all add: softmax_fwd_shape)
  have wf: "well_formed ?out"
    using assms(1) by (simp add: well_formed_def softmax_fwd_shape)
  have rows: "row_of ?out r = map (\<lambda>c. Fin (?w c)) [0..<ncols ?out]"
  proof (rule row_of_eqI [OF wf])
    show "r < nrows ?out" using assms(3) shape by simp
  next
    fix c assume "c < ncols ?out"
    then show "elems ?out ! (r * ncols ?out + c) = Fin (?w c)"
      using stored [of c] vals(5) [of c] shape len by simp
  qed
  have "fsum_list (row_of ?out r) = fsum_list (map Fin (map ?w [0..<ncols xr]))"
    using rows shape by (simp add: comp_def)
  also have "\<dots> = Fin (sum_list (map ?w [0..<ncols xr]))" by (rule fsum_list_finite)
  also have "sum_list (map ?w [0..<ncols xr]) = (\<Sum>c<ncols xr. ?w c)"
    by (simp add: interv_sum_list_conv_sum_set_nat atLeast0LessThan)
  also have "\<dots> = 1" using softmax_weights_sum [OF ne] len by simp
  finally have total: "fsum_list (row_of ?out r) = Fin 1" .
  have c1: "\<forall>l<next_power_of_2 (ncols xr).
      fwd_row blk l = (if l < ncols xr then Fin (row ! l) else NInf)"
    using vals(1) len by simp
  have c2: "fwd_row_max blk = Fin (Max (set row))" by (rule vals(2))
  have c3: "\<forall>c<ncols xr. fwd_num blk c = Fin (exp (row ! c - Max (set row)))"
    using vals(3) len by (simp add: spec_e_def)
  have c4: "fwd_denom blk = Fin (\<Sum>c<ncols xr. exp (row ! c - Max (set row)))"
    using vals(4) len by (simp add: spec_d_def spec_e_def)
  have c5: "\<forall>c<ncols xr. fwd_output blk c = fdiv (fwd_num blk c) (fwd_denom blk)"
    using pos len by (simp add: vals(3,4,5))
  have c6: "\<forall>c<ncols xr. elems ?out ! (r * ncols xr + c) = fwd_output blk c"
    using stored by simp
  have c7: "row_of ?out r = map (\<lambda>c. Fin (?w c)) [0..<ncols xr]" using rows shape by simp
  from c1 c2 c3 c4 c5 c6 c7 total show ?thesis by blast
qed

lemma next_power_of_2_3: "next_power_of_2 3 = 4"
  by (simp add: next_power_of_2_def np2_from.simps)

theorem softmax_fwd_rows_witness:
  "fwd_row (softmax_fwd_block
       (device_ptr (\<lambda>_. NaN) (elems (finite_matrix \<lparr>nrows = 1, ncols = 3, elems = [1, 2, 3]\<rparr>)))
       3 (next_power_of_2 3) 0) 3 = NInf
   \<and> fwd_row_max (softmax_fwd_block
       (device_ptr (\<lambda>_. NaN) (elems (finite_matrix \<lparr>nrows = 1, ncols = 3, elems = [1, 2, 3]\<rparr>)))
       3 (next_power_of_2 3) 0) = Fin 3
   \<and> fwd_num (softmax_fwd_block
       (device_ptr (\<lambda>_. NaN) (elems (finite_matrix \<lparr>nrows = 1, ncols = 3, elems = [1, 2, 3]\<rparr>)))
       3 (next_power_of_2 3) 0) 0 = Fin (exp (1 - 3))
   \<and> row_of (softmax_fwd (\<lambda>_. NaN) (finite_matrix \<lparr>nrows = 1, ncols = 3, elems = [1, 2, 3]\<rparr>)) 0
       = map (\<lambda>c. Fin (spec_e [1, 2, 3] c / spec_d [1, 2, 3])) [0..<3]
   \<and> fsum_list (row_of (softmax_fwd (\<lambda>_. NaN)
        (finite_matrix \<lparr>nrows = 1, ncols = 3, elems = [1, 2, 3]\<rparr>)) 0) = Fin 1"
proof -
  let ?x = "\<lparr>nrows = 1, ncols = 3, elems = [1, 2, 3 :: real]\<rparr>"
  let ?blk = "softmax_fwd_block (device_ptr (\<lambda>_. NaN) (elems (finite_matrix ?x)))
                3 (next_power_of_2 3) 0"
  have wf: "well_formed ?x" by (simp add: well_formed_def)
  have row: "row_of ?x 0 = [1, 2, 3]" by (simp add: row_of_def)
  have c: "ncols ?x = 3" by (simp only: matrix.simps)
  have mx: "Max (set [1, 2, 3 :: real]) = 3" by simp
  have "0 < ncols ?x" "0 < nrows ?x" by simp_all
  note th = softmax_fwd_rows [OF wf this, of "\<lambda>_. NaN", unfolded row c mx]
  have a: "\<forall>l<next_power_of_2 3. fwd_row ?blk l = (if l < 3 then Fin ([1, 2, 3] ! l) else NInf)"
    and b: "fwd_row_max ?blk = Fin 3"
    and n: "\<forall>c<3. fwd_num ?blk c = Fin (exp ([1, 2, 3] ! c - 3))"
    and r: "row_of (softmax_fwd (\<lambda>_. NaN) (finite_matrix ?x)) 0
              = map (\<lambda>c. Fin (spec_e [1, 2, 3] c / spec_d [1, 2, 3])) [0..<3]"
    and t: "fsum_list (row_of (softmax_fwd (\<lambda>_. NaN) (finite_matrix ?x)) 0) = Fin 1"
    using th by blast+
  have "fwd_row ?blk 3 = NInf" using a by (simp add: next_power_of_2_3)
  moreover have "fwd_num ?blk 0 = Fin (exp (1 - 3))" using n by simp
  ultimately show ?thesis using b r t by blast
qed

section \<open>Softmax backward\<close>

lemma tl_fsum_Fin: "tl_fsum n (\<lambda>l. Fin (g l)) = Fin (\<Sum>l<n. g l)"
  by (rule tl_fsum_finite) simp

lemma if_Fin: "(if b then Fin u else Fin w) = Fin (if b then u else w)"
  by simp

text \<open>In exact arithmetic the gradient with respect to the subtracted maximum vanishes.\<close>

lemma spec_max_grad_zero:
  assumes "row \<noteq> []"
  shows "spec_max_grad row dy = 0"
proof -
  define d where "d = spec_d row"
  define ig where "ig = (\<Sum>j<length row. dy ! j * spec_e row j)"
  have d: "d \<noteq> 0" using spec_d_pos [OF assms] by (simp add: d_def)
  have "(\<Sum>c<length row. spec_normed_grad row dy c)
      = (\<Sum>c<length row. (1 / d) * (dy ! c * spec_e row c) + (- ig / d\<^sup>2) * spec_e row c)"
    by (rule sum.cong) (simp_all add: spec_normed_grad_def Let_def d_def ig_def algebra_simps)
  also have "\<dots> = (1 / d) * (\<Sum>c<length row. dy ! c * spec_e row c)
                 + (- ig / d\<^sup>2) * (\<Sum>c<length row. spec_e row c)"
    by (simp only: sum.distrib sum_distrib_left)
  also have "\<dots> = (1 / d) * ig + (- ig / d\<^sup>2) * d"
    by (simp only: ig_def d_def spec_d_def)
  also have "\<dots> = 0" using d by (simp add: power2_eq_square)
  finally show ?thesis by (simp add: spec_max_grad_def)
qed

text \<open>
  The routing step on a loaded row and an arbitrary block \<open>normed_grad\<close> of finite
  values: \<open>max_grad\<close> is minus the sum of the block over all its lanes, and a lane gets
  the whole of it exactly when its element equals the maximum of the row.
\<close>

lemma max_grad_routing_finite:
  assumes C: "0 < length row" "length row \<le> BS"
    and xr: "\<And>l. x_row l = (if l < length row then Fin (row ! l) else NInf)"
    and g: "\<And>l. l < BS \<Longrightarrow> g l = Fin (gr l)"
    and c: "c < BS"
  shows "max_grad_routing BS x_row g c
       = Fin (gr c + (- (\<Sum>l<BS. gr l))
                     * (if c < length row \<and> row ! c = Max (set row) then 1 else 0))"
proof -
  let ?C = "length row"
  have BS: "BS \<noteq> 0" "min BS ?C = ?C" using C by linarith+
  have "set row = (\<lambda>l. row ! l) ` {..<?C}" by (auto simp: set_conv_nth)
  then have mx: "tl_max BS x_row = Fin (Max (set row))"
    using tl_max_row [of ?C x_row "\<lambda>l. row ! l" BS, OF C(1) xr] BS by simp
  have "tl_fsum BS (\<lambda>l. fneg (g l)) = Fin (\<Sum>l<BS. - gr l)"
    by (rule tl_fsum_finite) (simp add: g)
  then have sm: "tl_fsum BS (\<lambda>l. fneg (g l)) = Fin (- (\<Sum>l<BS. gr l))"
    by (simp add: sum_negf)
  show ?thesis
    unfolding max_grad_routing_def Let_def mx sm
    using c by (simp add: g xr)
qed

text \<open>
  The variables of one cell of the backward kernel, when the cell's rows of the input
  and of the upstream gradient hold the finite values \<open>row\<close> and \<open>dy\<close>.
\<close>

lemma softmax_bwd_block_values:
  assumes C: "0 < length row" "length row \<le> BS"
    and x: "\<And>l. l < length row \<Longrightarrow> x_ptr (pid * length row + l) = Fin (row ! l)"
    and dy: "\<And>l. l < length row \<Longrightarrow> dy_ptr (pid * length row + l) = Fin (dy ! l)"
  defines "blk \<equiv> softmax_bwd_block x_ptr dy_ptr (length row) BS pid"
  shows "bwd_x_row blk l = (if l < length row then Fin (row ! l) else NInf)"
    and "bwd_normed_grad blk l = Fin (if l < length row then spec_normed_grad row dy l else 0)"
    and "bwd_dx blk = max_grad_routing BS (bwd_x_row blk) (bwd_normed_grad blk)"
proof -
  let ?C = "length row"
  define m where "m = Max (set row)"
  define d where "d = spec_d row"
  define ld where "ld = tl_load x_ptr (row_offset ?C pid) (row_mask ?C pid) (\<lambda>_. NInf)"
  define dl where "dl = tl_load dy_ptr (row_offset ?C pid) (row_mask ?C pid) (\<lambda>_. Fin 0)"
  define E where "E l = (if l < ?C then spec_e row l else 0)" for l
  define DY where "DY l = (if l < ?C then dy ! l else 0)" for l
  have ld: "ld l = (if l < ?C then Fin (row ! l) else NInf)" for l
    using x by (simp add: ld_def tl_load_def row_mask_iff row_offset_def)
  have dl: "dl l = Fin (DY l)" for l
    using dy by (simp add: dl_def DY_def tl_load_def row_mask_iff row_offset_def)
  have BS: "BS \<noteq> 0" "min BS ?C = ?C" using C by linarith+
  have "set row = (\<lambda>l. row ! l) ` {..<?C}" by (auto simp: set_conv_nth)
  then have mx: "tl_max BS ld = Fin m"
    using tl_max_row [of ?C ld "\<lambda>l. row ! l" BS, OF C(1) ld] BS by (simp add: m_def)
  have num: "fexp (fsub (ld l) (Fin m)) = Fin (E l)" for l
    by (simp add: ld fsub_def E_def spec_e_def m_def)
  have sumE: "(\<Sum>l<BS. E l) = d"
    unfolding E_def d_def spec_d_def by (rule sum_masked_lanes) (rule C(2))
  have ne: "row \<noteq> []" using C(1) by auto
  have pos: "0 < d" unfolding d_def by (rule spec_d_pos) (rule ne)
  define ig where "ig = (\<Sum>l<BS. DY l * E l)"
  define NG where "NG l = (DY l * (1 / d) + 1 * (- 1 / (d * d) * ig)) * E l" for l
  have blk: "bwd_x_row blk = ld" "bwd_normed_grad blk = (\<lambda>l. Fin (NG l))"
    unfolding blk_def softmax_bwd_block_def Let_def ld_def [symmetric] dl_def [symmetric] mx
    using pos by (simp_all add: num dl tl_fsum_Fin sumE ig_def NG_def)
  have ig: "ig = (\<Sum>j<?C. dy ! j * spec_e row j)"
  proof -
    have "ig = (\<Sum>l<BS. if l < ?C then dy ! l * spec_e row l else 0)"
      unfolding ig_def by (rule sum.cong) (simp_all add: DY_def E_def)
    then show ?thesis by (simp add: sum_masked_lanes [OF C(2)])
  qed
  have NG: "NG l = (if l < ?C then spec_normed_grad row dy l else 0)" for l
    by (simp add: NG_def spec_normed_grad_def Let_def DY_def E_def ig d_def power2_eq_square)
  show "bwd_x_row blk l = (if l < length row then Fin (row ! l) else NInf)"
    by (simp add: blk ld)
  show "bwd_normed_grad blk l = Fin (if l < length row then spec_normed_grad row dy l else 0)"
    by (simp add: blk NG)
  show "bwd_dx blk = max_grad_routing BS (bwd_x_row blk) (bwd_normed_grad blk)"
    by (simp add: blk_def softmax_bwd_block_def Let_def)
qed

text \<open>The block that a cell stores, in the words of the specification.\<close>

lemma softmax_bwd_dx_lane:
  assumes C: "0 < length row" "length row \<le> BS"
    and x: "\<And>l. l < length row \<Longrightarrow> x_ptr (pid * length row + l) = Fin (row ! l)"
    and dy: "\<And>l. l < length row \<Longrightarrow> dy_ptr (pid * length row + l) = Fin (dy ! l)"
    and l: "l < length row"
  shows "bwd_dx (softmax_bwd_block x_ptr dy_ptr (length row) BS pid) l
       = Fin (spec_normed_grad row dy l
              + spec_max_grad row dy * (if row ! l = Max (set row) then 1 else 0))"
proof -
  let ?blk = "softmax_bwd_block x_ptr dy_ptr (length row) BS pid"
  let ?g = "\<lambda>l. if l < length row then spec_normed_grad row dy l else 0"
  note vals = softmax_bwd_block_values [OF C x dy]
  have "bwd_dx ?blk l = max_grad_routing BS (bwd_x_row ?blk) (bwd_normed_grad ?blk) l"
    by (simp only: vals(3))
  also have "\<dots> = Fin (?g l + (- (\<Sum>l<BS. ?g l))
                       * (if l < length row \<and> row ! l = Max (set row) then 1 else 0))"
  proof (rule max_grad_routing_finite [OF C vals(1)])
    show "bwd_normed_grad ?blk k = Fin (?g k)" for k by (rule vals(2))
    show "l < BS" using C(2) l by linarith
  qed
  also have "(\<Sum>l<BS. ?g l) = (\<Sum>l<length row. spec_normed_grad row dy l)"
    by (rule sum_masked_lanes) (rule C(2))
  finally show ?thesis using l by (simp add: spec_max_grad_def)
qed

lemma softmax_backward_shape:
  "nrows (softmax_backward junk x dy) = nrows x" "ncols (softmax_backward junk x dy) = ncols x"
  "length (elems (softmax_backward junk x dy)) = length (elems x)"
  unfolding softmax_backward_def Let_def
  by (simp_all add: length_launch [OF softmax_bwd_kernel_def] torch_empty_def)

text \<open>
  The element that the launch leaves at column \<open>c\<close> of row \<open>r\<close> is lane \<open>c\<close> of the
  block \<open>dx\<close> of cell \<open>r\<close>.
\<close>

lemma softmax_backward_stored:
  assumes wf: "well_formed x" and r: "r < nrows x" and c: "c < ncols x"
  shows "elems (softmax_backward junk x dy) ! (r * ncols x + c)
       = bwd_dx (softmax_bwd_block (device_ptr junk (elems x)) (device_ptr junk (elems dy))
                   (ncols x) (next_power_of_2 (ncols x)) r) c"
proof -
  let ?C = "ncols x" and ?R = "nrows x"
  let ?BS = "next_power_of_2 ?C"
  let ?xp = "device_ptr junk (elems x)"
  let ?dp = "device_ptr junk (elems dy)"
  have "launch [0..<?R] (softmax_bwd_kernel ?xp ?dp ?R ?C ?BS)
          (torch_empty junk (length (elems x))) ! (r * ?C + c)
        = bwd_dx (softmax_bwd_block ?xp ?dp ?C ?BS r) c"
  proof (rule launch_nth [OF softmax_bwd_kernel_def])
    show "r * ?C + c < length (torch_empty junk (length (elems x)))"
      using wf r c row_col_bound [of r ?R c ?C] by (simp add: torch_empty_def well_formed_def)
  next
    fix p l
    assume "row_mask ?C p l" "row_offset ?C p l = r * ?C + c"
    then have "p = r \<and> l = c"
      using c row_col_unique [of l ?C c p r] by (simp add: row_mask_iff row_offset_def)
    then show "bwd_dx (softmax_bwd_block ?xp ?dp ?C ?BS p) l
        = bwd_dx (softmax_bwd_block ?xp ?dp ?C ?BS r) c"
      by simp
  next
    have "r \<in> set [0..<?R]" using r by simp
    moreover have "c \<in> set [0..<?BS]" using c next_power_of_2_ge [of ?C] by simp
    moreover have "row_mask ?C r c \<and> row_offset ?C r c = r * ?C + c"
      using c by (simp add: row_mask_iff row_offset_def)
    ultimately show "\<exists>p\<in>set [0..<?R]. \<exists>l\<in>set [0..<?BS].
        row_mask ?C p l \<and> row_offset ?C p l = r * ?C + c"
      by blast
  qed
  then show ?thesis by (simp add: softmax_backward_def Let_def)
qed

lemma softmax_backward_nth:
  assumes wf: "well_formed xr" "well_formed dyr"
    and shape: "nrows dyr = nrows xr" "ncols dyr = ncols xr"
    and C: "0 < ncols xr" and r: "r < nrows xr" and c: "c < ncols xr"
  shows "elems (softmax_backward junk (finite_matrix xr) (finite_matrix dyr)) ! (r * ncols xr + c)
       = Fin (spec_normed_grad (row_of xr r) (row_of dyr r) c
              + spec_max_grad (row_of xr r) (row_of dyr r)
                * (if row_of xr r ! c = Max (set (row_of xr r)) then 1 else 0))"
proof -
  let ?C = "ncols xr"
  let ?BS = "next_power_of_2 ?C"
  let ?xp = "device_ptr junk (map Fin (elems xr))"
  let ?dp = "device_ptr junk (map Fin (elems dyr))"
  have len: "length (row_of xr r) = ?C" using wf(1) r by (rule length_row_of)
  have len': "length (row_of dyr r) = ?C" using wf(2) r shape length_row_of [of dyr r] by simp
  have xp: "?xp (r * length (row_of xr r) + l) = Fin (row_of xr r ! l)"
    if "l < length (row_of xr r)" for l
    using that wf(1) r len by (intro finite_row_ptr) simp_all
  have dp: "?dp (r * length (row_of xr r) + l) = Fin (row_of dyr r ! l)"
    if "l < length (row_of xr r)" for l
    using that wf(2) r len shape finite_row_ptr [of dyr r l junk] len' by simp
  have "bwd_dx (softmax_bwd_block ?xp ?dp (length (row_of xr r)) ?BS r) c
      = Fin (spec_normed_grad (row_of xr r) (row_of dyr r) c
              + spec_max_grad (row_of xr r) (row_of dyr r)
                * (if row_of xr r ! c = Max (set (row_of xr r)) then 1 else 0))"
    using C c len next_power_of_2_ge [of ?C]
    by (intro softmax_bwd_dx_lane xp dp) simp_all
  then show ?thesis
    using softmax_backward_stored [of "finite_matrix xr" r c junk "finite_matrix dyr"] wf(1) r c len
    by simp
qed

text \<open>
  C4. For finite inputs, the backward kernel's cell \<open>r\<close> loads the row of \<open>x\<close> at every
  column of its true extent and ends in the routing step
  \<open>dx = normed_grad + max_grad * indicator\<close>, which it stores under the row mask. The
  routing step, on any block \<open>g\<close> of finite values in the place of \<open>normed_grad\<close>, takes
  \<open>max_grad\<close> to be minus the sum of \<open>g\<close> over the block and adds the whole of it at
  every column whose element equals the maximum of the row (a non-strict comparison:
  each of several tied maxima gets the full \<open>max_grad\<close>) and nothing at the other
  columns. The \<open>normed_grad\<close> of the kernel is the one of the specification, and so the
  stored gradient is \<open>normed_grad + max_grad * indicator\<close> on the real row.
\<close>

theorem softmax_backward_gradient:
  fixes junk g :: "nat \<Rightarrow> fval" and gr :: "nat \<Rightarrow> real"
  assumes "well_formed x" and "well_formed dy"
    and "nrows dy = nrows x" and "ncols dy = ncols x"
    and "r < nrows x" and "c < ncols x"
    and "\<And>l. l < next_power_of_2 (ncols x) \<Longrightarrow> g l = Fin (gr l)"
  defines "blk \<equiv> softmax_bwd_block (device_ptr junk (elems (finite_matrix x)))
                    (device_ptr junk (elems (finite_matrix dy))) (ncols x)
                    (next_power_of_2 (ncols x)) r"
  shows "bwd_x_row blk c = Fin (row_of x r ! c)
       \<and> max_grad_routing (next_power_of_2 (ncols x)) (bwd_x_row blk) g c
           = Fin (gr c + (- (\<Sum>l<next_power_of_2 (ncols x). gr l))
                         * (if row_of x r ! c = Max (set (row_of x r)) then 1 else 0))
       \<and> bwd_normed_grad blk c = Fin (spec_normed_grad (row_of x r) (row_of dy r) c)
       \<and> bwd_dx blk = max_grad_routing (next_power_of_2 (ncols x)) (bwd_x_row blk)
                        (bwd_normed_grad blk)
       \<and> elems (softmax_backward junk (finite_matrix x) (finite_matrix dy)) ! (r * ncols x + c)
           = bwd_dx blk c
       \<and> elems (softmax_backward junk (finite_matrix x) (finite_matrix dy)) ! (r * ncols x + c)
           = Fin (spec_normed_grad (row_of x r) (row_of dy r) c
                  + spec_max_grad (row_of x r) (row_of dy r)
                    * (if row_of x r ! c = Max (set (row_of x r)) then 1 else 0))"
proof -
  let ?C = "ncols x"
  let ?BS = "next_power_of_2 ?C"
  let ?row = "row_of x r"
  have len: "length ?row = ?C" using assms(1,5) by (rule length_row_of)
  have len': "length (row_of dy r) = ?C" using assms(2,3,4,5) length_row_of [of dy r] by simp
  have C: "0 < length ?row" "length ?row \<le> ?BS"
    using assms(6) len next_power_of_2_ge [of ?C] by simp_all
  have blk: "blk = softmax_bwd_block (device_ptr junk (map Fin (elems x)))
      (device_ptr junk (map Fin (elems dy))) (length ?row) ?BS r"
    by (simp add: blk_def len)
  have xp: "device_ptr junk (map Fin (elems x)) (r * length ?row + l) = Fin (?row ! l)"
    if "l < length ?row" for l
    using that assms(1,5) len by (intro finite_row_ptr) simp_all
  have dp: "device_ptr junk (map Fin (elems dy)) (r * length ?row + l) = Fin (row_of dy r ! l)"
    if "l < length ?row" for l
    using that assms(2,3,4,5) len finite_row_ptr [of dy r l junk] len' by simp
  note vals = softmax_bwd_block_values [OF C xp dp, folded blk]
  have c1: "bwd_x_row blk c = Fin (?row ! c)" using assms(6) len by (simp add: vals(1))
  have "max_grad_routing ?BS (bwd_x_row blk) g c
      = Fin (gr c + (- (\<Sum>l<?BS. gr l))
                    * (if c < length ?row \<and> ?row ! c = Max (set ?row) then 1 else 0))"
    using assms(6) C(2) len by (intro max_grad_routing_finite C vals(1) assms(7)) simp_all
  then have c2: "max_grad_routing ?BS (bwd_x_row blk) g c
      = Fin (gr c + (- (\<Sum>l<?BS. gr l)) * (if ?row ! c = Max (set ?row) then 1 else 0))"
    using assms(6) len by simp
  have c3: "bwd_normed_grad blk c = Fin (spec_normed_grad ?row (row_of dy r) c)"
    using assms(6) len by (simp add: vals(2))
  have c4: "bwd_dx blk = max_grad_routing ?BS (bwd_x_row blk) (bwd_normed_grad blk)"
    by (rule vals(3))
  have c5: "elems (softmax_backward junk (finite_matrix x) (finite_matrix dy)) ! (r * ?C + c)
      = bwd_dx blk c"
    using softmax_backward_stored [of "finite_matrix x" r c junk "finite_matrix dy"] assms(1,5,6)
    by (simp add: blk_def)
  have "0 < ncols x" using assms(6) by simp
  then have c6: "elems (softmax_backward junk (finite_matrix x) (finite_matrix dy)) ! (r * ?C + c)
      = Fin (spec_normed_grad ?row (row_of dy r) c
             + spec_max_grad ?row (row_of dy r) * (if ?row ! c = Max (set ?row) then 1 else 0))"
    using assms(1-6) by (intro softmax_backward_nth)
  from c1 c2 c3 c4 c5 c6 show ?thesis by blast
qed

theorem softmax_backward_gradient_witness:
  "max_grad_routing (next_power_of_2 3)
       (bwd_x_row (softmax_bwd_block
          (device_ptr (\<lambda>_. NaN) (elems (finite_matrix \<lparr>nrows = 1, ncols = 3, elems = [1, 3, 3]\<rparr>)))
          (device_ptr (\<lambda>_. NaN) (elems (finite_matrix \<lparr>nrows = 1, ncols = 3, elems = [1, 0, 2]\<rparr>)))
          3 (next_power_of_2 3) 0))
       (\<lambda>l. Fin (real l + 1)) 0 = Fin 1
   \<and> max_grad_routing (next_power_of_2 3)
       (bwd_x_row (softmax_bwd_block
          (device_ptr (\<lambda>_. NaN) (elems (finite_matrix \<lparr>nrows = 1, ncols = 3, elems = [1, 3, 3]\<rparr>)))
          (device_ptr (\<lambda>_. NaN) (elems (finite_matrix \<lparr>nrows = 1, ncols = 3, elems = [1, 0, 2]\<rparr>)))
          3 (next_power_of_2 3) 0))
       (\<lambda>l. Fin (real l + 1)) 1 = Fin (2 - 10)
   \<and> max_grad_routing (next_power_of_2 3)
       (bwd_x_row (softmax_bwd_block
          (device_ptr (\<lambda>_. NaN) (elems (finite_matrix \<lparr>nrows = 1, ncols = 3, elems = [1, 3, 3]\<rparr>)))
          (device_ptr (\<lambda>_. NaN) (elems (finite_matrix \<lparr>nrows = 1, ncols = 3, elems = [1, 0, 2]\<rparr>)))
          3 (next_power_of_2 3) 0))
       (\<lambda>l. Fin (real l + 1)) 2 = Fin (3 - 10)
   \<and> elems (softmax_backward (\<lambda>_. NaN)
       (finite_matrix \<lparr>nrows = 1, ncols = 3, elems = [1, 3, 3]\<rparr>)
       (finite_matrix \<lparr>nrows = 1, ncols = 3, elems = [1, 0, 2]\<rparr>)) ! (0 * 3 + 2)
     = Fin (spec_normed_grad [1, 3, 3] [1, 0, 2] 2
          + spec_max_grad [1, 3, 3] [1, 0, 2] * (if [1, 3, 3 :: real] ! 2 = Max (set [1, 3, 3]) then 1 else 0))"
proof -
  let ?x = "\<lparr>nrows = 1, ncols = 3, elems = [1, 3, 3 :: real]\<rparr>"
  let ?dy = "\<lparr>nrows = 1, ncols = 3, elems = [1, 0, 2 :: real]\<rparr>"
  let ?blk = "softmax_bwd_block (device_ptr (\<lambda>_. NaN) (elems (finite_matrix ?x)))
                (device_ptr (\<lambda>_. NaN) (elems (finite_matrix ?dy))) 3 (next_power_of_2 3) 0"
  let ?g = "\<lambda>l. Fin (real l + 1)"
  let ?ind = "\<lambda>c. if [1, 3, 3 :: real] ! c = Max (set [1, 3, 3]) then 1 else 0 :: real"
  have wf: "well_formed ?x" "well_formed ?dy" by (simp_all add: well_formed_def)
  have row: "row_of ?x 0 = [1, 3, 3]" "row_of ?dy 0 = [1, 0, 2]" by (simp_all add: row_of_def)
  have c: "ncols ?x = 3" by (simp only: matrix.simps)
  have sm: "(\<Sum>l<4. real l + 1) = 10" by (simp add: lessThan_nat_numeral lessThan_Suc)
  have h: "nrows ?dy = nrows ?x" "ncols ?dy = ncols ?x" "0 < nrows ?x" by simp_all
  have cs: "(0 :: nat) < 3" "(1 :: nat) < 3" "(2 :: nat) < 3" by simp_all
  note th = softmax_backward_gradient [where g = ?g and gr = "\<lambda>l. real l + 1"
      and junk = "\<lambda>_. NaN", OF wf h _ refl, unfolded row c]
  have a0: "max_grad_routing (next_power_of_2 3) (bwd_x_row ?blk) ?g 0
      = Fin (real 0 + 1 + (- (\<Sum>l<next_power_of_2 3. real l + 1)) * ?ind 0)"
    using th [OF cs(1)] by blast
  have a1: "max_grad_routing (next_power_of_2 3) (bwd_x_row ?blk) ?g 1
      = Fin (real 1 + 1 + (- (\<Sum>l<next_power_of_2 3. real l + 1)) * ?ind 1)"
    using th [OF cs(2)] by blast
  have a2: "max_grad_routing (next_power_of_2 3) (bwd_x_row ?blk) ?g 2
      = Fin (real 2 + 1 + (- (\<Sum>l<next_power_of_2 3. real l + 1)) * ?ind 2)"
    and b: "elems (softmax_backward (\<lambda>_. NaN) (finite_matrix ?x) (finite_matrix ?dy)) ! (0 * 3 + 2)
      = Fin (spec_normed_grad [1, 3, 3] [1, 0, 2] 2 + spec_max_grad [1, 3, 3] [1, 0, 2] * ?ind 2)"
    using th [OF cs(3)] by blast+
  have "max_grad_routing (next_power_of_2 3) (bwd_x_row ?blk) ?g 0 = Fin 1"
    unfolding a0 by (simp add: next_power_of_2_3 sm)
  moreover have "max_grad_routing (next_power_of_2 3) (bwd_x_row ?blk) ?g 1 = Fin (2 - 10)"
    unfolding a1 by (simp add: next_power_of_2_3 sm)
  moreover have "max_grad_routing (next_power_of_2 3) (bwd_x_row ?blk) ?g 2 = Fin (3 - 10)"
    unfolding a2 by (simp add: next_power_of_2_3 sm)
  ultimately show ?thesis using b by blast
qed

text \<open>
  C5. For finite inputs \<open>x\<close> and upstream gradients \<open>dy\<close> of the same shape, every
  row of the output of the backward pass sums to 0 over its true extent.
\<close>

theorem softmax_backward_row_sum:
  assumes "well_formed x" and "well_formed dy"
    and "nrows dy = nrows x" and "ncols dy = ncols x"
    and "r < nrows x"
  shows "fsum_list (row_of (softmax_backward junk (finite_matrix x) (finite_matrix dy)) r) = Fin 0"
proof (cases "ncols x = 0")
  case True
  then show ?thesis
    by (simp add: row_of_def softmax_backward_shape finite_matrix_def fsum_list_def)
next
  case False
  let ?out = "softmax_backward junk (finite_matrix x) (finite_matrix dy)"
  let ?g = "\<lambda>c. spec_normed_grad (row_of x r) (row_of dy r) c"
  have shape: "nrows ?out = nrows x" "ncols ?out = ncols x"
    by (simp_all add: softmax_backward_shape finite_matrix_def)
  have wf: "well_formed ?out"
    using assms(1) by (simp add: well_formed_def softmax_backward_shape finite_matrix_def)
  have len: "length (row_of x r) = ncols x" using assms(1,5) by (rule length_row_of)
  then have ne: "row_of x r \<noteq> []" using False by auto
  have zero: "spec_max_grad (row_of x r) (row_of dy r) = 0" using ne by (rule spec_max_grad_zero)
  have rows: "row_of ?out r = map (\<lambda>c. Fin (?g c)) [0..<ncols ?out]"
  proof (rule row_of_eqI [OF wf])
    show "r < nrows ?out" using assms(5) shape by simp
  next
    fix c assume "c < ncols ?out"
    then show "elems ?out ! (r * ncols ?out + c) = Fin (?g c)"
      using softmax_backward_nth [OF assms(1,2,3,4) _ assms(5), of c junk] False shape zero
      by simp
  qed
  have "fsum_list (row_of ?out r) = fsum_list (map Fin (map ?g [0..<ncols x]))"
    using rows shape by (simp add: comp_def)
  also have "\<dots> = Fin (sum_list (map ?g [0..<ncols x]))" by (rule fsum_list_finite)
  also have "sum_list (map ?g [0..<ncols x]) = (\<Sum>c<ncols x. ?g c)"
    by (simp add: interv_sum_list_conv_sum_set_nat atLeast0LessThan)
  also have "\<dots> = - spec_max_grad (row_of x r) (row_of dy r)"
    by (simp add: spec_max_grad_def len)
  finally show ?thesis by (simp add: zero)
qed

theorem softmax_backward_row_sum_witness:
  "fsum_list (row_of (softmax_backward (\<lambda>_. NaN)
       (finite_matrix \<lparr>nrows = 1, ncols = 3, elems = [1, 3, 3]\<rparr>)
       (finite_matrix \<lparr>nrows = 1, ncols = 3, elems = [1, 0, 2]\<rparr>)) 0) = Fin 0"
proof -
  let ?x = "\<lparr>nrows = 1, ncols = 3, elems = [1, 3, 3 :: real]\<rparr>"
  let ?dy = "\<lparr>nrows = 1, ncols = 3, elems = [1, 0, 2 :: real]\<rparr>"
  have wf: "well_formed ?x" "well_formed ?dy" by (simp_all add: well_formed_def)
  have "nrows ?dy = nrows ?x" "ncols ?dy = ncols ?x" "0 < nrows ?x" by simp_all
  from softmax_backward_row_sum [OF wf this, of "\<lambda>_. NaN"] show ?thesis .
qed

section \<open>Matrix products\<close>

lemma nth_product_upt:
  assumes "i < m" "j < n"
  shows "List.product [0..<m] [0..<n] ! (i * n + j) = (i, j)"
proof -
  have "i * n + j < length [0..<m] * length [0..<n]"
    using row_col_bound [OF assms] by simp
  then show ?thesis using assms by (simp add: product_nth)
qed

lemma truncated_matmul_nth:
  assumes "i < nrows X" "j < ncols Y"
  shows "elems (truncated_matmul X Y) ! (i * ncols Y + j)
       = (\<Sum>k<min (ncols X) (nrows Y). elems X ! (i * ncols X + k) * elems Y ! (k * ncols Y + j))"
  using assms row_col_bound [OF assms]
  by (simp add: truncated_matmul_def nth_product_upt)

lemma truncated_matmul_length:
  "length (elems (truncated_matmul X Y)) = nrows X * ncols Y"
  by (simp add: truncated_matmul_def)

lemma fold_add_sum:
  fixes f :: "nat \<Rightarrow> real"
  shows "fold (\<lambda>k acc. acc + f k) [0..<n] a = a + (\<Sum>k<n. f k)"
  by (induction n) simp_all

lemma truncated_is_reference:
  "nrows Y = ncols X \<Longrightarrow> truncated_matmul X Y = reference_matmul X Y"
  by (simp add: truncated_matmul_def reference_matmul_def fold_add_sum)

text \<open>
  A host result equals the truncated product as soon as it has its shape and its
  entries.
\<close>

lemma truncated_matmul_eqI:
  assumes "length es = nrows X * ncols Y"
    and "\<And>i j. i < nrows X \<Longrightarrow> j < ncols Y \<Longrightarrow>
           es ! (i * ncols Y + j)
           = (\<Sum>k<min (ncols X) (nrows Y). elems X ! (i * ncols X + k) * elems Y ! (k * ncols Y + j))"
  shows "\<lparr>nrows = nrows X, ncols = ncols Y, elems = es\<rparr> = truncated_matmul X Y"
proof -
  have "es = elems (truncated_matmul X Y)"
  proof (rule nth_equalityI)
    show "length es = length (elems (truncated_matmul X Y))"
      using assms(1) by (simp add: truncated_matmul_length)
  next
    fix n assume "n < length es"
    then have n: "n < nrows X * ncols Y" using assms(1) by simp
    then have pos: "0 < ncols Y" by (cases "ncols Y") simp_all
    have i: "n div ncols Y < nrows X" using n pos by (simp add: less_mult_imp_div_less)
    have j: "n mod ncols Y < ncols Y" using pos by simp
    have "n = (n div ncols Y) * ncols Y + n mod ncols Y" by simp
    then show "es ! n = elems (truncated_matmul X Y) ! n"
      using assms(2) [OF i j] truncated_matmul_nth [OF i j] by simp
  qed
  then show ?thesis by (simp add: truncated_matmul_def)
qed

subsection \<open>Row times column\<close>

lemma naive_masks: "x_mask C i l \<longleftrightarrow> l < C" "y_mask R2 j l \<longleftrightarrow> l < R2"
  by (simp_all add: x_mask_def y_mask_def x_row_offset_def y_col_offset_def)

lemma transpose_contiguous_nth:
  assumes "j < ncols Y" "l < nrows Y"
  shows "elems (transpose_contiguous Y) ! (j * nrows Y + l) = elems Y ! (l * ncols Y + j)"
  using assms row_col_bound [OF assms]
  by (simp add: transpose_contiguous_def nth_product_upt)

lemma naive_matmul_output_value:
  assumes wf: "well_formed X" and i: "i < nrows X" and j: "j < ncols Y"
    and BS: "ncols X \<le> BS"
  shows "naive_matmul_output (device_ptr junk (elems X))
           (device_ptr junk (elems (transpose_contiguous Y))) (ncols X) (nrows Y) BS (i, j)
       = (\<Sum>k<min (ncols X) (nrows Y). elems X ! (i * ncols X + k) * elems Y ! (k * ncols Y + j))"
proof -
  let ?C = "ncols X" and ?R2 = "nrows Y"
  let ?xp = "device_ptr junk (elems X)"
  let ?yp = "device_ptr junk (elems (transpose_contiguous Y))"
  let ?f = "\<lambda>k. elems X ! (i * ?C + k) * elems Y ! (k * ncols Y + j)"
  have x: "?xp (i * ?C + l) = elems X ! (i * ?C + l)" if "l < ?C" for l
    using that wf i row_col_bound [of i "nrows X" l ?C] by (simp add: device_ptr_def well_formed_def)
  have y: "?yp (j * ?R2 + l) = elems Y ! (l * ncols Y + j)" if "l < ?R2" for l
    using that j row_col_bound [of j "ncols Y" l ?R2]
    by (simp add: device_ptr_def transpose_contiguous_nth) (simp add: transpose_contiguous_def)
  have "naive_matmul_output ?xp ?yp ?C ?R2 BS (i, j)
      = (\<Sum>l<BS. (if l < ?C then ?xp (i * ?C + l) else 0) * (if l < ?R2 then ?yp (j * ?R2 + l) else 0))"
    by (simp add: naive_matmul_output_def tl_sum_def tl_load_def naive_masks
        x_row_offset_def y_col_offset_def cong: if_cong)
  also have "\<dots> = (\<Sum>l<BS. if l < min ?C ?R2 then ?f l else 0)"
    by (rule sum.cong) (simp_all add: x y)
  also have "\<dots> = (\<Sum>l<min ?C ?R2. ?f l)"
    using BS by (intro sum_masked_lanes) simp
  finally show ?thesis .
qed

lemma naive_matmul_truncated:
  assumes wf: "well_formed X"
  shows "naive_matmul junk X Y = Inr (truncated_matmul X Y)"
proof -
  let ?R = "nrows X" and ?C = "ncols X" and ?R2 = "nrows Y" and ?N = "ncols Y"
  let ?xp = "device_ptr junk (elems X)"
  let ?yp = "device_ptr junk (elems (transpose_contiguous Y))"
  let ?BS = "next_power_of_2 ?C"
  let ?grid = "List.product [0..<?R] [0..<?N]"
  let ?es = "launch ?grid (naive_matmul_kernel ?xp ?yp ?R ?C ?R2 ?N ?BS) (torch_empty junk (?R * ?N))"
  note k = naive_matmul_kernel_def
    [of ?xp ?yp ?R ?C ?R2 ?N ?BS]
  have len: "length ?es = ?R * ?N"
    by (simp add: length_launch [where lanes = "\<lambda>_. [()]", OF k] torch_empty_def)
  have "\<lparr>nrows = ?R, ncols = ?N, elems = ?es\<rparr> = truncated_matmul X Y"
  proof (rule truncated_matmul_eqI [OF len])
    fix i j assume i: "i < ?R" and j: "j < ?N"
    let ?v = "\<Sum>k<min ?C ?R2. elems X ! (i * ?C + k) * elems Y ! (k * ?N + j)"
    show "?es ! (i * ?N + j) = ?v"
    proof (rule launch_nth [where lanes = "\<lambda>_. [()]", OF k])
      show "i * ?N + j < length (torch_empty junk (?R * ?N))"
        using row_col_bound [OF i j] by (simp add: torch_empty_def)
    next
      fix p :: "nat \<times> nat" and l :: unit
      assume p: "p \<in> set ?grid" and off: "output_offset ?N p = i * ?N + j"
      obtain p1 p2 where pp: "p = (p1, p2)" by (cases p)
      have "p2 < ?N" using p pp by simp
      then have "p1 = i \<and> p2 = j"
        using off j row_col_unique [of p2 ?N j p1 i] by (simp add: output_offset_def pp)
      then show "naive_matmul_output ?xp ?yp ?C ?R2 ?BS p = ?v"
        using naive_matmul_output_value [OF wf i j next_power_of_2_ge, of junk] pp by simp
    next
      have "(i, j) \<in> set ?grid" using i j by simp
      moreover have "output_offset ?N (i, j) = i * ?N + j" by (simp add: output_offset_def)
      ultimately show "\<exists>p\<in>set ?grid. \<exists>l\<in>set [()]. True \<and> output_offset ?N p = i * ?N + j"
        by (intro bexI [of _ "(i, j)"] bexI [of _ "()"]) simp_all
    qed
  qed
  then show ?thesis by (simp add: naive_matmul_def Let_def)
qed

subsection \<open>Blocked product\<close>

lemma cdiv_mult_ge:
  assumes "0 < S"
  shows "n \<le> cdiv n S * S"
proof (cases "n = 0")
  case True
  then show ?thesis by simp
next
  case False
  then have "(n - 1) div S < cdiv n S" using cdiv_covers [OF assms, of "n - 1" n] by simp
  then have "Suc ((n - 1) div S) * S \<le> cdiv n S * S" by (intro mult_le_mono1) simp
  moreover have "n - 1 < Suc ((n - 1) div S) * S"
    using assms dividend_less_times_div [of S "n - 1"] by (simp add: mult.commute)
  ultimately show ?thesis using False by linarith
qed

text \<open>A sum taken block by block is the sum over the whole range.\<close>

lemma sum_by_blocks:
  fixes F :: "nat \<Rightarrow> real"
  shows "(\<Sum>k<n. \<Sum>kk<S. F (k * S + kk)) = (\<Sum>l<n * S. F l)"
proof (induction n)
  case 0
  show ?case by simp
next
  case (Suc n)
  have "(\<Sum>l<Suc n * S. F l) = (\<Sum>l<n * S. F l) + (\<Sum>l = n * S..<n * S + S. F l)"
    by (simp add: lessThan_atLeast0 sum.atLeastLessThan_concat add.commute)
  also have "(\<Sum>l = n * S..<n * S + S. F l) = (\<Sum>kk<S. F (n * S + kk))"
    using sum.shift_bounds_nat_ivl [of F 0 "n * S" S]
    by (simp add: lessThan_atLeast0 add.commute)
  finally show ?case using Suc by simp
qed

text \<open>The state of the loop over \<open>k\<close> after \<open>n\<close> iterations.\<close>

lemma k_loop_state:
  defines "St \<equiv> \<lambda>x_ptr y_ptr x_cols y_rows y_cols BK xp yp n.
     (\<lambda>l. \<Sum>k<n. tl_dot BK
          (tl_load x_ptr (\<lambda>l. xp l + k * BK) (x_load_mask x_cols BK k) (\<lambda>_. 0))
          (tl_load y_ptr (\<lambda>l. yp l + k * (BK * y_cols)) (y_load_mask y_rows BK k) (\<lambda>_. 0)) l,
      \<lambda>l. xp l + n * BK,
      \<lambda>l. yp l + n * (BK * y_cols))"
  shows "fold (k_step x_ptr y_ptr x_cols y_rows y_cols BK) [0..<n] (\<lambda>_. 0, xp, yp)
       = St x_ptr y_ptr x_cols y_rows y_cols BK xp yp n"
proof (induction n)
  case 0
  show ?case by (simp add: St_def)
next
  case (Suc n)
  let ?step = "k_step x_ptr y_ptr x_cols y_rows y_cols BK"
  have "fold ?step [0..<Suc n] (\<lambda>_. 0, xp, yp) = ?step n (fold ?step [0..<n] (\<lambda>_. 0, xp, yp))"
    by simp
  also have "\<dots> = ?step n (St x_ptr y_ptr x_cols y_rows y_cols BK xp yp n)"
    by (simp only: Suc)
  also have "\<dots> = St x_ptr y_ptr x_cols y_rows y_cols BK xp yp (Suc n)"
    by (simp add: St_def k_step_def Let_def algebra_simps)
  finally show ?case .
qed

lemma tiled_load_masks:
  "x_load_mask x_cols BK k (i, kk) \<longleftrightarrow> k * BK + kk < x_cols"
  "y_load_mask y_rows BK k (kk, j) \<longleftrightarrow> k * BK + kk < y_rows"
proof -
  have "int kk < int n - int k * int BK \<longleftrightarrow> int (k * BK + kk) < int n" for n
    by (simp add: algebra_simps)
  then have "int kk < int n - int k * int BK \<longleftrightarrow> k * BK + kk < n" for n
    by (simp only: of_nat_less_iff)
  then show "x_load_mask x_cols BK k (i, kk) \<longleftrightarrow> k * BK + kk < x_cols"
    "y_load_mask y_rows BK k (kk, j) \<longleftrightarrow> k * BK + kk < y_rows"
    by (simp_all add: x_load_mask_def y_load_mask_def)
qed

text \<open>
  The converted accumulator of a cell at a lane whose row and column lie inside the
  output: the truncated dot product, whatever lies past the end of the inputs.
\<close>

lemma tiled_matmul_output_value:
  assumes wfX: "well_formed X" and wfY: "well_formed Y"
    and BK: "0 < BK"
    and i: "x_pid * BX + a < nrows X" and j: "y_pid * BY + b < ncols Y"
  shows "tiled_matmul_output to (device_ptr junk (elems X)) (device_ptr junk (elems Y))
           (ncols X) (nrows Y) (ncols Y) BX BY BK (x_pid, y_pid) (a, b)
       = to accumulator_cast_dtype
           (\<Sum>l<min (ncols X) (nrows Y).
              elems X ! ((x_pid * BX + a) * ncols X + l) * elems Y ! (l * ncols Y + (y_pid * BY + b)))"
proof -
  let ?C = "ncols X" and ?R2 = "nrows Y" and ?N = "ncols Y"
  let ?i = "x_pid * BX + a" and ?j = "y_pid * BY + b"
  let ?xp = "device_ptr junk (elems X)" and ?yp = "device_ptr junk (elems Y)"
  let ?f = "\<lambda>l. elems X ! (?i * ?C + l) * elems Y ! (l * ?N + ?j)"
  let ?F = "\<lambda>l. if l < min ?C ?R2 then ?f l else 0"
  let ?n = "cdiv ?C BK"
  have x: "?xp (?i * ?C + l) = elems X ! (?i * ?C + l)" if "l < ?C" for l
    using that wfX row_col_bound [OF i that] by (simp add: device_ptr_def well_formed_def)
  have y: "?yp (l * ?N + ?j) = elems Y ! (l * ?N + ?j)" if "l < ?R2" for l
    using that wfY row_col_bound [OF that j] by (simp add: device_ptr_def well_formed_def)
  have dot: "tl_dot BK
          (tl_load ?xp (\<lambda>l. x_ptrs_init ?C BX x_pid l + k * BK) (x_load_mask ?C BK k) (\<lambda>_. 0))
          (tl_load ?yp (\<lambda>l. y_ptrs_init ?N BY y_pid l + k * (BK * ?N)) (y_load_mask ?R2 BK k) (\<lambda>_. 0))
          (a, b)
        = (\<Sum>kk<BK. ?F (k * BK + kk))" for k
    unfolding tl_dot_def prod.case
  proof (rule sum.cong [OF refl])
    fix kk
    have px: "x_ptrs_init ?C BX x_pid (a, kk) + k * BK = ?i * ?C + (k * BK + kk)"
      by (simp add: x_ptrs_init_def Let_def algebra_simps)
    have py: "y_ptrs_init ?N BY y_pid (kk, b) + k * (BK * ?N) = (k * BK + kk) * ?N + ?j"
      by (simp add: y_ptrs_init_def Let_def algebra_simps)
    show "tl_load ?xp (\<lambda>l. x_ptrs_init ?C BX x_pid l + k * BK) (x_load_mask ?C BK k) (\<lambda>_. 0) (a, kk)
        * tl_load ?yp (\<lambda>l. y_ptrs_init ?N BY y_pid l + k * (BK * ?N)) (y_load_mask ?R2 BK k) (\<lambda>_. 0) (kk, b)
        = ?F (k * BK + kk)"
      unfolding tl_load_def tiled_load_masks px py using x y by simp
  qed
  have "tiled_matmul_output to ?xp ?yp ?C ?R2 ?N BX BY BK (x_pid, y_pid) (a, b)
      = to accumulator_cast_dtype (\<Sum>k<?n. \<Sum>kk<BK. ?F (k * BK + kk))"
    by (simp add: tiled_matmul_output_def Let_def k_loop_state dot)
  also have "(\<Sum>k<?n. \<Sum>kk<BK. ?F (k * BK + kk)) = (\<Sum>l<?n * BK. ?F l)"
    by (rule sum_by_blocks)
  also have "\<dots> = (\<Sum>l<min ?C ?R2. ?f l)"
    using cdiv_mult_ge [OF BK, of ?C] by (intro sum_masked_lanes) simp
  finally show ?thesis .
qed

lemma tiled_output_mask_iff:
  "output_mask R N BX BY (p1, p2) (a, b) \<longleftrightarrow> p1 * BX + a < R \<and> p2 * BY + b < N"
  by (simp add: output_mask_def Let_def)

lemma tiled_output_ptrs_eq:
  "output_ptrs N BX BY (p1, p2) (a, b) = (p1 * BX + a) * N + (p2 * BY + b)"
  by (simp add: output_ptrs_def Let_def)

lemma tiled_launch_nth:
  assumes wfX: "well_formed X" and wfY: "well_formed Y"
    and B: "0 < BX" "0 < BY" "0 < BK"
    and i: "i < nrows X" and j: "j < ncols Y"
    and len: "length out = nrows X * ncols Y"
  shows "launch (List.product [0..<cdiv (nrows X) BX] [0..<cdiv (ncols Y) BY])
           (tiled_matmul_kernel to (device_ptr junk (elems X)) (device_ptr junk (elems Y))
              (nrows X) (ncols X) (nrows Y) (ncols Y) BX BY BK) out ! (i * ncols Y + j)
       = to accumulator_cast_dtype
           (\<Sum>l<min (ncols X) (nrows Y). elems X ! (i * ncols X + l) * elems Y ! (l * ncols Y + j))"
    (is "launch ?grid ?kern out ! _ = ?v")
proof (rule launch_nth [OF tiled_matmul_kernel_def])
  show "i * ncols Y + j < length out" using row_col_bound [OF i j] len by simp
next
  fix p l :: "nat \<times> nat"
  assume m: "output_mask (nrows X) (ncols Y) BX BY p l"
    and off: "output_ptrs (ncols Y) BX BY p l = i * ncols Y + j"
  obtain p1 p2 a b where pl: "p = (p1, p2)" "l = (a, b)" by (cases p, cases l) blast
  have in_range: "p1 * BX + a < nrows X" "p2 * BY + b < ncols Y"
    using m by (simp_all add: pl tiled_output_mask_iff)
  have "p1 * BX + a = i \<and> p2 * BY + b = j"
    using off in_range(2) j row_col_unique [of "p2 * BY + b" "ncols Y" j "p1 * BX + a" i]
    by (simp add: pl tiled_output_ptrs_eq)
  then show "tiled_matmul_output to (device_ptr junk (elems X)) (device_ptr junk (elems Y))
        (ncols X) (nrows Y) (ncols Y) BX BY BK p l = ?v"
    using tiled_matmul_output_value [OF wfX wfY B(3) in_range, of to junk] by (simp add: pl)
next
  let ?p = "(i div BX, j div BY)" and ?l = "(i mod BX, j mod BY)"
  have "?p \<in> set ?grid" using B i j by (simp add: cdiv_covers)
  moreover have "?l \<in> set (List.product [0..<BX] [0..<BY])" using B by simp
  moreover have "output_mask (nrows X) (ncols Y) BX BY ?p ?l" using i j
    by (simp add: tiled_output_mask_iff)
  moreover have "output_ptrs (ncols Y) BX BY ?p ?l = i * ncols Y + j"
    by (simp add: tiled_output_ptrs_eq)
  ultimately show "\<exists>p\<in>set ?grid. \<exists>l\<in>set (List.product [0..<BX] [0..<BY]).
      output_mask (nrows X) (ncols Y) BX BY p l \<and> output_ptrs (ncols Y) BX BY p l = i * ncols Y + j"
    by blast
qed

lemma matrix_elems_eqI:
  assumes "length es = R * N" "length es' = R * N"
    and "\<And>i j. i < R \<Longrightarrow> j < N \<Longrightarrow> es ! (i * N + j) = es' ! (i * N + j)"
  shows "es = es'"
proof (rule nth_equalityI)
  show "length es = length es'" using assms(1,2) by simp
next
  fix n assume "n < length es"
  then have n: "n < R * N" using assms(1) by simp
  then have pos: "0 < N" by (cases N) simp_all
  have i: "n div N < R" using n pos by (simp add: less_mult_imp_div_less)
  have j: "n mod N < N" using pos by simp
  have "n = (n div N) * N + n mod N" by simp
  then show "es ! n = es' ! n" using assms(3) [OF i j] by simp
qed

text \<open>
  The blocked product returns the truncated product with the conversion of the
  accumulator applied to every entry.
\<close>

lemma tiled_matmul_truncated:
  assumes wfX: "well_formed X" and wfY: "well_formed Y"
  shows "tiled_matmul to junk X Y
       = Inr \<lparr>nrows = nrows X, ncols = ncols Y,
             elems = map (to accumulator_cast_dtype) (elems (truncated_matmul X Y))\<rparr>"
proof -
  let ?R = "nrows X" and ?N = "ncols Y"
  let ?es = "launch (List.product [0..<cdiv ?R 16] [0..<cdiv ?N 16])
           (tiled_matmul_kernel to (device_ptr junk (elems X)) (device_ptr junk (elems Y))
              ?R (ncols X) (nrows Y) ?N 16 16 32) (torch_zeros (?R * ?N))"
  have "?es = map (to accumulator_cast_dtype) (elems (truncated_matmul X Y))"
  proof (rule matrix_elems_eqI [of _ ?R ?N])
    show "length ?es = ?R * ?N"
      by (simp add: length_launch [OF tiled_matmul_kernel_def] torch_zeros_def)
  next
    show "length (map (to accumulator_cast_dtype) (elems (truncated_matmul X Y))) = ?R * ?N"
      by (simp add: truncated_matmul_length)
  next
    fix i j assume i: "i < ?R" and j: "j < ?N"
    have "i * ?N + j < length (elems (truncated_matmul X Y))"
      using row_col_bound [OF i j] by (simp add: truncated_matmul_length)
    then have "map (to accumulator_cast_dtype) (elems (truncated_matmul X Y)) ! (i * ?N + j)
        = to accumulator_cast_dtype (elems (truncated_matmul X Y) ! (i * ?N + j))"
      by simp
    moreover have "?es ! (i * ?N + j) = to accumulator_cast_dtype
           (\<Sum>l<min (ncols X) (nrows Y). elems X ! (i * ncols X + l) * elems Y ! (l * ?N + j))"
      by (rule tiled_launch_nth [OF wfX wfY _ _ _ i j]) (simp_all add: torch_zeros_def)
    ultimately show "?es ! (i * ?N + j)
        = map (to accumulator_cast_dtype) (elems (truncated_matmul X Y)) ! (i * ?N + j)"
      by (simp add: truncated_matmul_nth [OF i j])
  qed
  then show ?thesis by (simp add: tiled_matmul_def Let_def)
qed

lemma tiled_matmul_exact:
  assumes "well_formed X" and "well_formed Y"
  shows "tiled_matmul exact_to junk X Y = Inr (truncated_matmul X Y)"
proof -
  have "map (exact_to d) vs = vs" for d vs
    by (induction vs) (simp_all add: exact_to_def)
  then have "map (exact_to accumulator_cast_dtype) (elems (truncated_matmul X Y))
      = elems (truncated_matmul X Y)" .
  then show ?thesis
    unfolding tiled_matmul_truncated [OF assms] by (simp add: truncated_matmul_def)
qed

text \<open>
  C1. For X of shape M by K and Y of shape K by N, the row-times-column kernel and the
  blocked kernel both return the unblocked reference product, exactly, when arithmetic
  is exact and the conversion of the accumulator changes no value; what lies past the
  end of the inputs does not matter. The 4 by 3 and 3 by 2 matrices filled with
  0, 1, 2, ... give the integers 10, 13, 28, 40, 46, 67, 64, 94 from both.
\<close>

theorem matmul_kernels_match_reference:
  assumes "well_formed X" and "well_formed Y" and "nrows Y = ncols X"
  shows "naive_matmul junk X Y = Inr (reference_matmul X Y)
       \<and> tiled_matmul exact_to junk X Y = Inr (reference_matmul X Y)"
  using assms
  by (simp add: naive_matmul_truncated tiled_matmul_exact truncated_is_reference)

theorem matmul_kernels_match_reference_witness:
  "naive_matmul (\<lambda>_. 99) \<lparr>nrows = 4, ncols = 3, elems = [0, 1, 2, 3, 4, 5, 6, 7, 8, 9, 10, 11]\<rparr>
      \<lparr>nrows = 3, ncols = 2, elems = [0, 1, 2, 3, 4, 5]\<rparr>
     = Inr \<lparr>nrows = 4, ncols = 2, elems = [10, 13, 28, 40, 46, 67, 64, 94]\<rparr>
   \<and> tiled_matmul exact_to (\<lambda>_. 99)
      \<lparr>nrows = 4, ncols = 3, elems = [0, 1, 2, 3, 4, 5, 6, 7, 8, 9, 10, 11]\<rparr>
      \<lparr>nrows = 3, ncols = 2, elems = [0, 1, 2, 3, 4, 5]\<rparr>
     = Inr \<lparr>nrows = 4, ncols = 2, elems = [10, 13, 28, 40, 46, 67, 64, 94]\<rparr>"
proof -
  let ?X = "\<lparr>nrows = 4, ncols = 3, elems = [0, 1, 2, 3, 4, 5, 6, 7, 8, 9, 10, 11 :: real]\<rparr>"
  let ?Y = "\<lparr>nrows = 3, ncols = 2, elems = [0, 1, 2, 3, 4, 5 :: real]\<rparr>"
  have wf: "well_formed ?X" "well_formed ?Y" by (simp_all add: well_formed_def)
  have inner: "nrows ?Y = ncols ?X" by simp
  have ref: "reference_matmul ?X ?Y
      = \<lparr>nrows = 4, ncols = 2, elems = [10, 13, 28, 40, 46, 67, 64, 94]\<rparr>"
    by (simp add: reference_matmul_def upt_conv_Cons lessThan_Suc eval_nat_numeral)
  from matmul_kernels_match_reference [OF wf inner, of "\<lambda>_. 99"] show ?thesis
    unfolding ref .
qed

text \<open>
  C10. The row-times-column host function has no check of the inner extents. For X of
  shape r by c and Y of shape r2 by c2 with \<open>r2 \<noteq> c\<close> it raises nothing and returns the
  r by c2 matrix whose entry \<open>(i, j)\<close> is the dot product of the first \<open>min c r2\<close>
  elements of row \<open>i\<close> of X and of column \<open>j\<close> of Y: both loads fill their masked lanes
  with 0.
\<close>

theorem naive_matmul_mismatched_inner:
  assumes "well_formed X" and "well_formed Y" and "nrows Y \<noteq> ncols X"
  shows "naive_matmul junk X Y = Inr (truncated_matmul X Y)
       \<and> nrows (truncated_matmul X Y) = nrows X \<and> ncols (truncated_matmul X Y) = ncols Y
       \<and> (\<forall>i<nrows X. \<forall>j<ncols Y. elems (truncated_matmul X Y) ! (i * ncols Y + j)
            = (\<Sum>k<min (ncols X) (nrows Y). elems X ! (i * ncols X + k) * elems Y ! (k * ncols Y + j)))"
  using assms(1)
  by (simp add: naive_matmul_truncated truncated_matmul_nth) (simp add: truncated_matmul_def)

theorem naive_matmul_mismatched_inner_witness:
  "naive_matmul (\<lambda>_. 99) \<lparr>nrows = 2, ncols = 3, elems = [1, 2, 3, 4, 5, 6]\<rparr>
      \<lparr>nrows = 2, ncols = 2, elems = [1, 2, 3, 4]\<rparr>
   = Inr \<lparr>nrows = 2, ncols = 2, elems = [7, 10, 19, 28]\<rparr>"
proof -
  let ?X = "\<lparr>nrows = 2, ncols = 3, elems = [1, 2, 3, 4, 5, 6 :: real]\<rparr>"
  let ?Y = "\<lparr>nrows = 2, ncols = 2, elems = [1, 2, 3, 4 :: real]\<rparr>"
  have wf: "well_formed ?X" "well_formed ?Y" by (simp_all add: well_formed_def)
  have inner: "nrows ?Y \<noteq> ncols ?X" by simp
  have val: "truncated_matmul ?X ?Y = \<lparr>nrows = 2, ncols = 2, elems = [7, 10, 19, 28]\<rparr>"
    by (simp add: truncated_matmul_def upt_conv_Cons lessThan_Suc eval_nat_numeral)
  from naive_matmul_mismatched_inner [OF wf inner, of "\<lambda>_. 99"]
  have "naive_matmul (\<lambda>_. 99) ?X ?Y = Inr (truncated_matmul ?X ?Y)" by (rule conjunct1)
  then show ?thesis unfolding val .
qed

text \<open>
  C8, as the code has it. Neither host function compares the column count of X with the
  row count of Y, and neither raises: on X of 1 by 2 and Y of 3 by 1 both return the
  1 by 1 matrix holding \<open>1 * 3 + 2 * 4\<close>.
\<close>

theorem matmul_shape_mismatch_counterexample:
  "naive_matmul real \<lparr>nrows = 1, ncols = 2, elems = [1, 2]\<rparr>
      \<lparr>nrows = 3, ncols = 1, elems = [3, 4, 5]\<rparr>
     = Inr \<lparr>nrows = 1, ncols = 1, elems = [11]\<rparr>
   \<and> tiled_matmul exact_to real \<lparr>nrows = 1, ncols = 2, elems = [1, 2]\<rparr>
      \<lparr>nrows = 3, ncols = 1, elems = [3, 4, 5]\<rparr>
     = Inr \<lparr>nrows = 1, ncols = 1, elems = [11]\<rparr>"
proof -
  let ?X = "\<lparr>nrows = 1, ncols = 2, elems = [1, 2 :: real]\<rparr>"
  let ?Y = "\<lparr>nrows = 3, ncols = 1, elems = [3, 4, 5 :: real]\<rparr>"
  have wf: "well_formed ?X" "well_formed ?Y" by (simp_all add: well_formed_def)
  have val: "truncated_matmul ?X ?Y = \<lparr>nrows = 1, ncols = 1, elems = [11]\<rparr>"
    by (simp add: truncated_matmul_def upt_conv_Cons lessThan_Suc eval_nat_numeral)
  show ?thesis
    using naive_matmul_truncated [OF wf(1), of real ?Y] tiled_matmul_exact [OF wf, of real]
    unfolding val by simp
qed

text \<open>
  C8, amended. For inputs whose inner extents differ, neither host function returns a
  shape error: each runs its grid and returns a matrix with the rows of X and the
  columns of Y.
\<close>

theorem matmul_hosts_never_reject:
  assumes "nrows Y \<noteq> ncols X"
  shows "naive_matmul junk X Y \<noteq> Inl ShapeMismatch
       \<and> tiled_matmul to junk X Y \<noteq> Inl ShapeMismatch
       \<and> (\<exists>Z. naive_matmul junk X Y = Inr Z \<and> nrows Z = nrows X \<and> ncols Z = ncols Y
              \<and> length (elems Z) = nrows X * ncols Y)
       \<and> (\<exists>Z. tiled_matmul to junk X Y = Inr Z \<and> nrows Z = nrows X \<and> ncols Z = ncols Y
              \<and> length (elems Z) = nrows X * ncols Y)"
proof -
  have "length (launch (List.product [0..<nrows X] [0..<ncols Y])
          (naive_matmul_kernel (device_ptr junk (elems X))
             (device_ptr junk (elems (transpose_contiguous Y)))
             (nrows X) (ncols X) (nrows Y) (ncols Y) (next_power_of_2 (ncols X)))
          (torch_empty junk (nrows X * ncols Y))) = nrows X * ncols Y"
    by (simp add: length_launch [where lanes = "\<lambda>_. [()]", OF naive_matmul_kernel_def]
        torch_empty_def)
  moreover have "length (launch (List.product [0..<cdiv (nrows X) 16] [0..<cdiv (ncols Y) 16])
          (tiled_matmul_kernel to (device_ptr junk (elems X)) (device_ptr junk (elems Y))
             (nrows X) (ncols X) (nrows Y) (ncols Y) 16 16 32)
          (torch_zeros (nrows X * ncols Y))) = nrows X * ncols Y"
    by (simp add: length_launch [OF tiled_matmul_kernel_def] torch_zeros_def)
  ultimately show ?thesis by (simp add: naive_matmul_def tiled_matmul_def Let_def)
qed

theorem matmul_hosts_never_reject_witness:
  "naive_matmul (\<lambda>_. 99) \<lparr>nrows = 1, ncols = 2, elems = [1, 2]\<rparr>
       \<lparr>nrows = 3, ncols = 1, elems = [3, 4, 5]\<rparr> \<noteq> Inl ShapeMismatch
   \<and> tiled_matmul exact_to (\<lambda>_. 99) \<lparr>nrows = 1, ncols = 2, elems = [1, 2]\<rparr>
       \<lparr>nrows = 3, ncols = 1, elems = [3, 4, 5]\<rparr> \<noteq> Inl ShapeMismatch"
proof -
  let ?X = "\<lparr>nrows = 1, ncols = 2, elems = [1, 2 :: real]\<rparr>"
  let ?Y = "\<lparr>nrows = 3, ncols = 1, elems = [3, 4, 5 :: real]\<rparr>"
  have "nrows ?Y \<noteq> ncols ?X" by simp
  from matmul_hosts_never_reject [OF this, of "\<lambda>_. 99" exact_to] show ?thesis by blast
qed

text \<open>
  C2, where the code departs from it. The loads of the blocked kernel are masked along
  the inner dimension only. With X of 4 by 3 and Y of 3 by 2 the host function launches
  the cell \<open>(0, 0)\<close>, whose loop runs the iteration \<open>k = 0\<close>; there the lane \<open>(4, 0)\<close> of
  the X slab is loaded unmasked from offset 12, past the 12 elements of X, and the lane
  \<open>(2, 2)\<close> of the Y slab from offset 6, past the 6 elements of Y.
\<close>

theorem tiled_loads_leave_extent:
  "(0, 0) \<in> set (List.product [0..<cdiv 4 16] [0..<cdiv 2 16]) \<and> 0 \<in> set [0..<cdiv 3 32]
   \<and> (4, 0) \<in> set (List.product [0..<16] [0..<32])
   \<and> x_load_mask 3 32 0 (4, 0) \<and> x_ptrs_init 3 16 0 (4, 0) = 12 \<and> \<not> (12::nat) < 4 * 3
   \<and> (2, 2) \<in> set (List.product [0..<32] [0..<16])
   \<and> y_load_mask 3 32 0 (2, 2) \<and> y_ptrs_init 2 16 0 (2, 2) = 6 \<and> \<not> (6::nat) < 3 * 2"
  by (simp add: cdiv_def x_load_mask_def x_ptrs_init_def y_load_mask_def y_ptrs_init_def)

text \<open>
  C9, where the code departs from it. The kernel converts the accumulator to float16;
  the host function allocates the output with the default dtype, which is float32.
\<close>

theorem cast_dtype_differs_from_buffer_dtype:
  "accumulator_cast_dtype = Float16 \<and> output_buffer_dtype Float32 = Float32
   \<and> accumulator_cast_dtype \<noteq> output_buffer_dtype Float32"
  by (simp add: accumulator_cast_dtype_def output_buffer_dtype_def)

section \<open>Partition of the output among the cells\<close>

lemma in_stored_offsets:
  "i \<in> set (stored_offsets lanes offsets msk) \<longleftrightarrow> (\<exists>l\<in>set lanes. msk l \<and> offsets l = i)"
  by (auto simp: stored_offsets_def)

text \<open>
  What a store leaves at an offset that one of its lanes writes under a true mask does
  not depend on what the buffer held there.
\<close>

lemma tl_store_hit:
  assumes "\<exists>l\<in>set lanes. msk l \<and> offsets l = i"
  shows "\<exists>v. \<forall>buf. i < length buf \<longrightarrow> tl_store buf lanes offsets vals msk ! i = v"
  using assms
proof (induction lanes)
  case Nil
  then show ?case by simp
next
  case (Cons l ls)
  have step: "tl_store buf (l # ls) offsets vals msk
      = tl_store (if msk l then buf[offsets l := vals l] else buf) ls offsets vals msk" for buf
    by (simp add: tl_store_def)
  show ?case
  proof (cases "\<exists>l'\<in>set ls. msk l' \<and> offsets l' = i")
    case True
    then obtain v where v: "\<And>buf. i < length buf \<Longrightarrow> tl_store buf ls offsets vals msk ! i = v"
      using Cons.IH by blast
    have "tl_store buf (l # ls) offsets vals msk ! i = v" if "i < length buf" for buf
      unfolding step using that by (intro v) simp
    then show ?thesis by blast
  next
    case False
    then have hit: "msk l" "offsets l = i" using Cons.prems by auto
    have "tl_store buf (l # ls) offsets vals msk ! i = vals l" if "i < length buf" for buf
    proof -
      have "tl_store buf (l # ls) offsets vals msk ! i = (buf[offsets l := vals l]) ! i"
        unfolding step using False hit by (simp add: tl_store_untouched)
      then show ?thesis using that hit by simp
    qed
    then show ?thesis by blast
  qed
qed

text \<open>
  A cell that ends in one masked store writes exactly at the offsets of the lanes
  whose mask is true, whatever the values it stores (the values are of a type with
  more than one element, so that a write can be seen).
\<close>

lemma writes_at_store:
  fixes vals :: "'l \<Rightarrow> 'a"
  assumes two: "\<And>v :: 'a. \<exists>w. w \<noteq> v"
  shows "writes_at (\<lambda>buf. tl_store buf lanes offsets vals msk) i
       \<longleftrightarrow> i \<in> set (stored_offsets lanes offsets msk)"
proof
  assume "writes_at (\<lambda>buf. tl_store buf lanes offsets vals msk) i"
  then obtain buf where "tl_store buf lanes offsets vals msk ! i \<noteq> buf ! i"
    unfolding writes_at_def by blast
  then have "\<not> (\<forall>l. l \<in> set lanes \<longrightarrow> msk l \<longrightarrow> offsets l \<noteq> i)"
    using tl_store_untouched [of lanes msk offsets i buf vals] by blast
  then show "i \<in> set (stored_offsets lanes offsets msk)"
    unfolding in_stored_offsets by blast
next
  assume "i \<in> set (stored_offsets lanes offsets msk)"
  then have "\<exists>l\<in>set lanes. msk l \<and> offsets l = i" unfolding in_stored_offsets .
  then obtain v where v: "\<And>buf. i < length buf \<Longrightarrow> tl_store buf lanes offsets vals msk ! i = v"
    using tl_store_hit [of lanes msk offsets i vals] by blast
  obtain w where w: "w \<noteq> v" using two by blast
  define buf where "buf = replicate (Suc i) w"
  have len: "i < length buf" by (simp add: buf_def)
  have "buf ! i = w" unfolding buf_def by (rule nth_replicate) simp
  moreover have "tl_store buf lanes offsets vals msk ! i = v" using len by (rule v)
  ultimately have "tl_store buf lanes offsets vals msk ! i \<noteq> buf ! i" using w by simp
  then show "writes_at (\<lambda>buf. tl_store buf lanes offsets vals msk) i"
    unfolding writes_at_def using len by blast
qed

lemma real_two: "\<exists>w :: real. w \<noteq> v"
proof
  show "v + 1 \<noteq> v" by simp
qed

lemma fval_two: "\<exists>w :: fval. w \<noteq> v"
  by (cases v) (blast intro: fval.distinct)+

text \<open>
  A map from offsets back to cells that inverts the masked lanes shows the partition.
\<close>

lemma partitions_by_cell_of:
  fixes kern :: "'p \<Rightarrow> 'a list \<Rightarrow> 'a list"
  assumes k: "\<And>p b. kern p b = tl_store b (lanes p) (offsets p) (vals p) (msk p)"
    and two: "\<And>v :: 'a. \<exists>w. w \<noteq> v"
    and inv: "\<And>p i. p \<in> set grid \<Longrightarrow> i \<in> set (stored_offsets (lanes p) (offsets p) (msk p))
               \<Longrightarrow> cell_of i = p"
    and cov: "\<And>i. i < extent \<Longrightarrow> cell_of i \<in> set grid
               \<and> i \<in> set (stored_offsets (lanes (cell_of i)) (offsets (cell_of i)) (msk (cell_of i)))"
  shows "partitions grid kern extent"
proof -
  have "kern p = (\<lambda>b. tl_store b (lanes p) (offsets p) (vals p) (msk p))" for p
    by (rule ext) (rule k)
  then have w: "writes_at (kern p) i \<longleftrightarrow> i \<in> set (stored_offsets (lanes p) (offsets p) (msk p))"
    for p i
    by (simp only: writes_at_store [OF two])
  show ?thesis
    unfolding partitions_def w
  proof (intro conjI ballI impI allI)
    fix p q i assume "p \<in> set grid" "q \<in> set grid" "p \<noteq> q"
    then show "\<not> (i \<in> set (stored_offsets (lanes p) (offsets p) (msk p))
        \<and> i \<in> set (stored_offsets (lanes q) (offsets q) (msk q)))"
      using inv by blast
  next
    fix i assume "i < extent"
    then show "\<exists>!p. p \<in> set grid \<and> i \<in> set (stored_offsets (lanes p) (offsets p) (msk p))"
      using inv cov by blast
  qed
qed

lemma add_partitions:
  assumes "0 < S"
  shows "partitions [0..<cdiv n S] (add_kernel junk xp yp n S) n"
proof (rule partitions_by_cell_of [where cell_of = "\<lambda>i. i div S", OF add_kernel_store real_two])
  fix p i assume "i \<in> set (stored_offsets [0..<S] (add_offsets S p) (add_mask n S p))"
  then obtain l where "l < S" "p * S + l = i"
    by (auto simp: in_stored_offsets add_offsets_def)
  then show "i div S = p" by auto
next
  fix i assume i: "i < n"
  have "i mod S \<in> set [0..<S]" using assms by simp
  moreover have "add_mask n S (i div S) (i mod S)" "add_offsets S (i div S) (i mod S) = i"
    using i by (simp_all add: add_mask_def add_offsets_def)
  ultimately have "i \<in> set (stored_offsets [0..<S] (add_offsets S (i div S)) (add_mask n S (i div S)))"
    unfolding in_stored_offsets by blast
  then show "i div S \<in> set [0..<cdiv n S]
      \<and> i \<in> set (stored_offsets [0..<S] (add_offsets S (i div S)) (add_mask n S (i div S)))"
    using cdiv_covers [OF assms i] by simp
qed

text \<open>
  The two softmax kernels store under the same row mask at the same row offsets.
\<close>

lemma row_partitions:
  fixes kern :: "nat \<Rightarrow> fval list \<Rightarrow> fval list"
  assumes k: "\<And>p b. kern p b = tl_store b [0..<BS] (row_offset C p) (vals p) (row_mask C p)"
    and "C \<le> BS"
  shows "partitions [0..<R] kern (R * C)"
proof (rule partitions_by_cell_of [where cell_of = "\<lambda>i. i div C", OF k fval_two])
  fix p i assume "i \<in> set (stored_offsets [0..<BS] (row_offset C p) (row_mask C p))"
  then obtain l where "l < C" "p * C + l = i"
    by (auto simp: in_stored_offsets row_mask_iff row_offset_def)
  then show "i div C = p" by auto
next
  fix i assume i: "i < R * C"
  then have pos: "0 < C" by (cases C) simp_all
  have r: "i div C < R" using i pos by (simp add: less_mult_imp_div_less)
  have "i mod C \<in> set [0..<BS]" using pos assms(2) by (simp add: less_le_trans [OF mod_less_divisor])
  moreover have "row_mask C (i div C) (i mod C)" "row_offset C (i div C) (i mod C) = i"
    using pos by (simp_all add: row_mask_iff row_offset_def)
  ultimately have "i \<in> set (stored_offsets [0..<BS] (row_offset C (i div C)) (row_mask C (i div C)))"
    unfolding in_stored_offsets by blast
  then show "i div C \<in> set [0..<R]
      \<and> i \<in> set (stored_offsets [0..<BS] (row_offset C (i div C)) (row_mask C (i div C)))"
    using r by simp
qed

lemma naive_partitions:
  "partitions (List.product [0..<R] [0..<N]) (naive_matmul_kernel xp yp R K K' N BS) (R * N)"
proof (rule partitions_by_cell_of [where cell_of = "\<lambda>i. (i div N, i mod N)"
      and lanes = "\<lambda>_. [()]", OF naive_matmul_kernel_def real_two])
  fix p :: "nat \<times> nat" and i
  assume "p \<in> set (List.product [0..<R] [0..<N])"
    "i \<in> set (stored_offsets [()] (\<lambda>_. output_offset N p) (\<lambda>_. True))"
  then have "snd p < N" "fst p * N + snd p = i"
    by (auto simp: in_stored_offsets output_offset_def case_prod_beta)
  then have "i div N = fst p" "i mod N = snd p" by auto
  then show "(i div N, i mod N) = p" by simp
next
  fix i assume i: "i < R * N"
  then have pos: "0 < N" by (cases N) simp_all
  have "i div N < R" using i pos by (simp add: less_mult_imp_div_less)
  then show "(i div N, i mod N) \<in> set (List.product [0..<R] [0..<N])
      \<and> i \<in> set (stored_offsets [()] (\<lambda>_. output_offset N (i div N, i mod N)) (\<lambda>_. True))"
    using pos by (simp add: in_stored_offsets output_offset_def)
qed

lemma tiled_partitions:
  assumes "0 < BX" "0 < BY"
  shows "partitions (List.product [0..<cdiv R BX] [0..<cdiv N BY])
           (tiled_matmul_kernel to xp yp R K K' N BX BY BK) (R * N)"
proof (rule partitions_by_cell_of [where cell_of = "\<lambda>i. ((i div N) div BX, (i mod N) div BY)",
      OF tiled_matmul_kernel_def real_two])
  fix p :: "nat \<times> nat" and i
  assume "i \<in> set (stored_offsets (List.product [0..<BX] [0..<BY]) (output_ptrs N BX BY p)
      (output_mask R N BX BY p))"
  then obtain l where l: "l \<in> set (List.product [0..<BX] [0..<BY])"
    "output_mask R N BX BY p l" "output_ptrs N BX BY p l = i"
    unfolding in_stored_offsets by blast
  obtain p1 p2 a b where pl: "p = (p1, p2)" "l = (a, b)" by (cases p, cases l) blast
  have ab: "a < BX" "b < BY" using l(1) pl by simp_all
  have c: "p2 * BY + b < N" using l(2) pl by (simp add: tiled_output_mask_iff)
  have i: "i = (p1 * BX + a) * N + (p2 * BY + b)" using l(3) pl by (simp add: tiled_output_ptrs_eq)
  have "i div N = p1 * BX + a" "i mod N = p2 * BY + b" using c by (simp_all add: i)
  then show "((i div N) div BX, (i mod N) div BY) = p" using ab pl by simp
next
  fix i assume i: "i < R * N"
  then have pos: "0 < N" by (cases N) simp_all
  let ?r = "i div N" and ?c = "i mod N"
  let ?p = "(?r div BX, ?c div BY)" and ?l = "(?r mod BX, ?c mod BY)"
  have r: "?r < R" using i pos by (simp add: less_mult_imp_div_less)
  have c: "?c < N" using pos by simp
  have "?p \<in> set (List.product [0..<cdiv R BX] [0..<cdiv N BY])"
    using assms r c by (simp add: cdiv_covers)
  moreover have "?l \<in> set (List.product [0..<BX] [0..<BY])" using assms by simp
  moreover have "output_mask R N BX BY ?p ?l" using r c by (simp add: tiled_output_mask_iff)
  moreover have "output_ptrs N BX BY ?p ?l = i" by (simp add: tiled_output_ptrs_eq)
  ultimately show "?p \<in> set (List.product [0..<cdiv R BX] [0..<cdiv N BY])
      \<and> i \<in> set (stored_offsets (List.product [0..<BX] [0..<BY]) (output_ptrs N BX BY ?p)
            (output_mask R N BX BY ?p))"
    unfolding in_stored_offsets by blast
qed

text \<open>
  The offsets a cell of each kernel writes are those of its lanes whose mask is true.
\<close>

lemma writes_at_add_kernel:
  "writes_at (add_kernel junk xp yp n S p) i
     \<longleftrightarrow> i \<in> set (stored_offsets [0..<S] (add_offsets S p) (add_mask n S p))"
proof -
  have "add_kernel junk xp yp n S p = (\<lambda>b. tl_store b [0..<S] (add_offsets S p)
      (\<lambda>l. tl_load xp (add_offsets S p) (add_mask n S p) junk l
          + tl_load yp (add_offsets S p) (add_mask n S p) junk l) (add_mask n S p))"
    by (rule ext) (rule add_kernel_store)
  then show ?thesis by (simp only: writes_at_store [OF real_two])
qed

lemma writes_at_softmax_fwd_kernel:
  "writes_at (softmax_fwd_kernel xp R C BS p) i
     \<longleftrightarrow> i \<in> set (stored_offsets [0..<BS] (row_offset C p) (row_mask C p))"
proof -
  have "softmax_fwd_kernel xp R C BS p = (\<lambda>b. tl_store b [0..<BS] (row_offset C p)
      (fwd_output (softmax_fwd_block xp C BS p)) (row_mask C p))"
    by (rule ext) (rule softmax_fwd_kernel_def)
  then show ?thesis by (simp only: writes_at_store [OF fval_two])
qed

lemma writes_at_softmax_bwd_kernel:
  "writes_at (softmax_bwd_kernel xp dp R C BS p) i
     \<longleftrightarrow> i \<in> set (stored_offsets [0..<BS] (row_offset C p) (row_mask C p))"
proof -
  have "softmax_bwd_kernel xp dp R C BS p = (\<lambda>b. tl_store b [0..<BS] (row_offset C p)
      (bwd_dx (softmax_bwd_block xp dp C BS p)) (row_mask C p))"
    by (rule ext) (rule softmax_bwd_kernel_def)
  then show ?thesis by (simp only: writes_at_store [OF fval_two])
qed

lemma writes_at_naive_matmul_kernel:
  "writes_at (naive_matmul_kernel xp yp R K K' N BS p) i \<longleftrightarrow> i = output_offset N p"
proof -
  have "naive_matmul_kernel xp yp R K K' N BS p = (\<lambda>b. tl_store b [()]
      (\<lambda>_. output_offset N p) (\<lambda>_. naive_matmul_output xp yp K K' BS p) (\<lambda>_. True))"
    by (rule ext) (rule naive_matmul_kernel_def)
  then have "writes_at (naive_matmul_kernel xp yp R K K' N BS p) i
      \<longleftrightarrow> i \<in> set (stored_offsets [()] (\<lambda>_. output_offset N p) (\<lambda>_. True))"
    by (simp only: writes_at_store [OF real_two])
  then show ?thesis by (auto simp: stored_offsets_def)
qed

lemma writes_at_tiled_matmul_kernel:
  "writes_at (tiled_matmul_kernel to xp yp R K K' N BX BY BK p) i
     \<longleftrightarrow> i \<in> set (stored_offsets (List.product [0..<BX] [0..<BY]) (output_ptrs N BX BY p)
                     (output_mask R N BX BY p))"
proof -
  have "tiled_matmul_kernel to xp yp R K K' N BX BY BK p
      = (\<lambda>b. tl_store b (List.product [0..<BX] [0..<BY]) (output_ptrs N BX BY p)
           (tiled_matmul_output to xp yp K K' N BX BY BK p) (output_mask R N BX BY p))"
    by (rule ext) (rule tiled_matmul_kernel_def)
  then show ?thesis by (simp only: writes_at_store [OF real_two])
qed

text \<open>
  C7. Each host function of the notebooks launches its kernel on the grid written
  below (vector addition with any positive block size and with the 1024 of \<open>add\<close>,
  softmax forward and backward with the next power of two of the column count, the
  row-times-column product, the blocked product with its 16 by 16 output tiles); and
  in each of these launches, whatever the inputs, no offset is written by two distinct
  cells of the grid and every offset inside the extent of the output is written by
  exactly one cell. A cell writes an offset when it changes what some buffer holds
  there; for these kernels that is an offset of a lane of the cell's store whose mask
  is true.
\<close>

theorem cells_partition_output:
  fixes junk :: "nat \<Rightarrow> real" and fjunk :: "nat \<Rightarrow> fval"
  assumes "0 < S"
  shows "add_launch junk S x y
           = launch [0..<cdiv (length x) S]
               (add_kernel junk (device_ptr junk x) (device_ptr junk y) (length x) S)
               (torch_empty junk (length x))
       \<and> partitions [0..<cdiv (length x) S]
           (add_kernel junk (device_ptr junk x) (device_ptr junk y) (length x) S) (length x)
       \<and> add junk x y
           = launch [0..<cdiv (length x) 1024]
               (add_kernel junk (device_ptr junk x) (device_ptr junk y) (length x) 1024)
               (torch_empty junk (length x))
       \<and> partitions [0..<cdiv (length x) 1024]
           (add_kernel junk (device_ptr junk x) (device_ptr junk y) (length x) 1024) (length x)
       \<and> elems (softmax_fwd fjunk X)
           = launch [0..<nrows X]
               (softmax_fwd_kernel (device_ptr fjunk (elems X)) (nrows X) (ncols X)
                  (next_power_of_2 (ncols X)))
               (torch_empty fjunk (length (elems X)))
       \<and> partitions [0..<nrows X]
           (softmax_fwd_kernel (device_ptr fjunk (elems X)) (nrows X) (ncols X)
              (next_power_of_2 (ncols X)))
           (nrows X * ncols X)
       \<and> elems (softmax_backward fjunk X DY)
           = launch [0..<nrows X]
               (softmax_bwd_kernel (device_ptr fjunk (elems X)) (device_ptr fjunk (elems DY))
                  (nrows X) (ncols X) (next_power_of_2 (ncols X)))
               (torch_empty fjunk (length (elems X)))
       \<and> partitions [0..<nrows X]
           (softmax_bwd_kernel (device_ptr fjunk (elems X)) (device_ptr fjunk (elems DY))
              (nrows X) (ncols X) (next_power_of_2 (ncols X)))
           (nrows X * ncols X)
       \<and> naive_matmul junk A B
           = Inr \<lparr>nrows = nrows A, ncols = ncols B,
                  elems = launch (List.product [0..<nrows A] [0..<ncols B])
                    (naive_matmul_kernel (device_ptr junk (elems A))
                       (device_ptr junk (elems (transpose_contiguous B)))
                       (nrows A) (ncols A) (nrows B) (ncols B) (next_power_of_2 (ncols A)))
                    (torch_empty junk (nrows A * ncols B))\<rparr>
       \<and> partitions (List.product [0..<nrows A] [0..<ncols B])
           (naive_matmul_kernel (device_ptr junk (elems A))
              (device_ptr junk (elems (transpose_contiguous B)))
              (nrows A) (ncols A) (nrows B) (ncols B) (next_power_of_2 (ncols A)))
           (nrows A * ncols B)
       \<and> tiled_matmul to junk A B
           = Inr \<lparr>nrows = nrows A, ncols = ncols B,
                  elems = launch (List.product [0..<cdiv (nrows A) 16] [0..<cdiv (ncols B) 16])
                    (tiled_matmul_kernel to (device_ptr junk (elems A)) (device_ptr junk (elems B))
                       (nrows A) (ncols A) (nrows B) (ncols B) 16 16 32)
                    (torch_zeros (nrows A * ncols B))\<rparr>
       \<and> partitions (List.product [0..<cdiv (nrows A) 16] [0..<cdiv (ncols B) 16])
           (tiled_matmul_kernel to (device_ptr junk (elems A)) (device_ptr junk (elems B))
              (nrows A) (ncols A) (nrows B) (ncols B) 16 16 32)
           (nrows A * ncols B)"
proof (intro conjI)
  show "add_launch junk S x y
      = launch [0..<cdiv (length x) S]
          (add_kernel junk (device_ptr junk x) (device_ptr junk y) (length x) S)
          (torch_empty junk (length x))"
    by (simp add: add_launch_def Let_def torch_empty_def)
  show "partitions [0..<cdiv (length x) S]
      (add_kernel junk (device_ptr junk x) (device_ptr junk y) (length x) S) (length x)"
    using assms by (rule add_partitions)
  show "add junk x y
      = launch [0..<cdiv (length x) 1024]
          (add_kernel junk (device_ptr junk x) (device_ptr junk y) (length x) 1024)
          (torch_empty junk (length x))"
    by (simp add: add_def add_launch_def Let_def torch_empty_def)
  show "partitions [0..<cdiv (length x) 1024]
      (add_kernel junk (device_ptr junk x) (device_ptr junk y) (length x) 1024) (length x)"
    by (rule add_partitions) simp
  show "elems (softmax_fwd fjunk X)
      = launch [0..<nrows X]
          (softmax_fwd_kernel (device_ptr fjunk (elems X)) (nrows X) (ncols X)
             (next_power_of_2 (ncols X)))
          (torch_empty fjunk (length (elems X)))"
    by (simp add: softmax_fwd_def Let_def)
  show "partitions [0..<nrows X]
      (softmax_fwd_kernel (device_ptr fjunk (elems X)) (nrows X) (ncols X)
         (next_power_of_2 (ncols X)))
      (nrows X * ncols X)"
    by (rule row_partitions [OF softmax_fwd_kernel_def]) (rule next_power_of_2_ge)
  show "elems (softmax_backward fjunk X DY)
      = launch [0..<nrows X]
          (softmax_bwd_kernel (device_ptr fjunk (elems X)) (device_ptr fjunk (elems DY))
             (nrows X) (ncols X) (next_power_of_2 (ncols X)))
          (torch_empty fjunk (length (elems X)))"
    by (simp add: softmax_backward_def Let_def)
  show "partitions [0..<nrows X]
      (softmax_bwd_kernel (device_ptr fjunk (elems X)) (device_ptr fjunk (elems DY))
         (nrows X) (ncols X) (next_power_of_2 (ncols X)))
      (nrows X * ncols X)"
    by (rule row_partitions [OF softmax_bwd_kernel_def]) (rule next_power_of_2_ge)
  show "naive_matmul junk A B
      = Inr \<lparr>nrows = nrows A, ncols = ncols B,
             elems = launch (List.product [0..<nrows A] [0..<ncols B])
               (naive_matmul_kernel (device_ptr junk (elems A))
                  (device_ptr junk (elems (transpose_contiguous B)))
                  (nrows A) (ncols A) (nrows B) (ncols B) (next_power_of_2 (ncols A)))
               (torch_empty junk (nrows A * ncols B))\<rparr>"
    by (simp add: naive_matmul_def Let_def)
  show "partitions (List.product [0..<nrows A] [0..<ncols B])
      (naive_matmul_kernel (device_ptr junk (elems A))
         (device_ptr junk (elems (transpose_contiguous B)))
         (nrows A) (ncols A) (nrows B) (ncols B) (next_power_of_2 (ncols A)))
      (nrows A * ncols B)"
    by (rule naive_partitions)
  show "tiled_matmul to junk A B
      = Inr \<lparr>nrows = nrows A, ncols = ncols B,
             elems = launch (List.product [0..<cdiv (nrows A) 16] [0..<cdiv (ncols B) 16])
               (tiled_matmul_kernel to (device_ptr junk (elems A)) (device_ptr junk (elems B))
                  (nrows A) (ncols A) (nrows B) (ncols B) 16 16 32)
               (torch_zeros (nrows A * ncols B))\<rparr>"
    by (simp add: tiled_matmul_def Let_def)
  show "partitions (List.product [0..<cdiv (nrows A) 16] [0..<cdiv (ncols B) 16])
      (tiled_matmul_kernel to (device_ptr junk (elems A)) (device_ptr junk (elems B))
         (nrows A) (ncols A) (nrows B) (ncols B) 16 16 32)
      (nrows A * ncols B)"
    by (rule tiled_partitions) simp_all
qed

theorem cells_partition_output_witness:
  "partitions [0..<2]
       (add_kernel (\<lambda>_. 0) (device_ptr (\<lambda>_. 0) [1, 2, 3]) (device_ptr (\<lambda>_. 0) [10, 20, 30]) 3 2) 3
   \<and> partitions [0..<2]
       (softmax_fwd_kernel (device_ptr (\<lambda>_. NaN) (map Fin [1, 2, 3, 4, 5, 6])) 2 3
          (next_power_of_2 3))
       (2 * 3)
   \<and> partitions [0..<2]
       (softmax_bwd_kernel (device_ptr (\<lambda>_. NaN) (map Fin [1, 2, 3, 4, 5, 6]))
          (device_ptr (\<lambda>_. NaN) (map Fin [1, 0, 2, 0, 1, 0])) 2 3 (next_power_of_2 3))
       (2 * 3)
   \<and> partitions (List.product [0..<17] [0..<17])
       (naive_matmul_kernel (device_ptr (\<lambda>_. 0) (replicate 17 1))
          (device_ptr (\<lambda>_. 0)
             (elems (transpose_contiguous \<lparr>nrows = 1, ncols = 17, elems = replicate 17 1\<rparr>)))
          17 1 1 17 (next_power_of_2 1))
       (17 * 17)
   \<and> partitions (List.product [0..<2] [0..<2])
       (tiled_matmul_kernel exact_to (device_ptr (\<lambda>_. 0) (replicate 17 1))
          (device_ptr (\<lambda>_. 0) (replicate 17 1)) 17 1 1 17 16 16 32)
       (17 * 17)"
proof -
  let ?X = "\<lparr>nrows = 2, ncols = 3, elems = map Fin [1, 2, 3, 4, 5, 6]\<rparr>"
  let ?DY = "\<lparr>nrows = 2, ncols = 3, elems = map Fin [1, 0, 2, 0, 1, 0]\<rparr>"
  let ?A = "\<lparr>nrows = 17, ncols = 1, elems = replicate 17 (1 :: real)\<rparr>"
  let ?B = "\<lparr>nrows = 1, ncols = 17, elems = replicate 17 (1 :: real)\<rparr>"
  have sel: "nrows ?X = 2" "ncols ?X = 3" "elems ?X = map Fin [1, 2, 3, 4, 5, 6]"
    "elems ?DY = map Fin [1, 0, 2, 0, 1, 0]"
    "nrows ?A = 17" "ncols ?A = 1" "elems ?A = replicate 17 1"
    "nrows ?B = 1" "ncols ?B = 17" "elems ?B = replicate 17 1"
    by (simp_all only: matrix.simps)
  have len: "length [1, 2, 3 :: real] = 3" by simp
  have cd: "cdiv 3 2 = 2" "cdiv 17 16 = 2" by (simp_all add: cdiv_def)
  have "(0 :: nat) < 2" by simp
  note th = cells_partition_output [where x = "[1, 2, 3]" and y = "[10, 20, 30]"
      and junk = "\<lambda>_. 0" and fjunk = "\<lambda>_. NaN" and X = ?X and DY = ?DY and A = ?A and B = ?B
      and to = exact_to, OF this, unfolded sel len cd]
  show ?thesis using th by blast
qed

end
